theory Spec2Isabelle
  imports Complex_Main "HOL-Library.AList"
begin

section \<open>Numbers, errors and decisions\<close>

text \<open>
  Python's \<open>int\<close> is unbounded and is modelled by \<open>int\<close>.  Python's \<open>float\<close> is the IEEE-754
  double.

  In the token bucket, the sliding window and the policy the value of a float operation
  decides what is returned, and there every float operation of the source is modelled with
  its rounding: \<open>fl x\<close> is the double nearest to the real number \<open>x\<close>, a tie going to the
  neighbour with the even significand, and an operation on doubles is \<open>fl\<close> of its exact
  result.  The quotient of two ints is \<open>fl\<close> of the exact quotient as well.  An int that meets
  a float is converted first; an int within \<open>2^53\<close> in magnitude is a double already, and the
  model writes \<open>of_int\<close> for it.  Comparisons are exact.

  \<open>fl\<close> has no largest double: where Python goes on with \<open>inf\<close>, or raises \<open>OverflowError\<close>,
  the model goes on with a large number.  The default burst of a policy checks for this and
  raises as the source does.  In the sliding window every overflow of the source ends in an
  exception (\<open>int(inf)\<close>, the conversion of a huge int), so a result that is returned was
  computed without one.  In the token bucket an infinite refill would pass unnoticed; the
  properties of the token bucket are stated for times, counts and rates within \<open>2^62\<close> in
  magnitude (\<open>ordinary\<close>), where the refill cannot overflow.

  In the fixed window, the store, the penalty engine and the quota accountant the floats are
  clock readings that the source compares with each other and adds to whole numbers; they
  are kept as real numbers there.  The scenarios proved for these classes use whole numbers
  of seconds, on which double arithmetic is exact, and the general statements rest on
  comparisons only.

  Every \<open>check_and_consume\<close> of the source has a parameter \<open>now\<close> that defaults to
  \<open>time.time()\<close>; the model always takes the time as an argument.
\<close>

datatype error = ValueError string | ZeroDivisionError | TypeError | OverflowError

text \<open>\<open>int(x)\<close> on a float truncates towards zero.\<close>

definition py_int :: "real \<Rightarrow> int" where
  "py_int x = (if 0 \<le> x then \<lfloor>x\<rfloor> else \<lceil>x\<rceil>)"

text \<open>
  Rounding to the nearest double.  \<open>round_half_even\<close> rounds a real number to the nearest
  integer, a tie to the even one.  \<open>binade x\<close> is the exponent \<open>e\<close> with
  \<open>2^e \<le> x < 2^(e+1)\<close> of a positive number.  A double has a significand of 53 bits, so the
  doubles around \<open>x\<close> are the multiples of \<open>2^(e-52)\<close>; below \<open>2^(-1022)\<close> (the subnormal
  numbers) they are the multiples of \<open>2^(-1074)\<close>.
\<close>

definition round_half_even :: "real \<Rightarrow> int" where
  "round_half_even x =
     (let n = \<lfloor>x\<rfloor>; r = x - of_int n
      in if r < 1 / 2 then n else if 1 / 2 < r then n + 1
         else if even n then n else n + 1)"

function binade :: "real \<Rightarrow> int" where
  "binade x =
     (if 2 \<le> x then binade (x / 2) + 1
      else if 0 < x \<and> x < 1 then binade (x * 2) - 1
      else 0)"
  by pat_completeness auto
termination
proof (relation "measure (\<lambda>x. if 1 \<le> x then nat \<lfloor>x\<rfloor> else nat \<lceil>1 / x\<rceil>)")
  show "wf (measure (\<lambda>x::real. if 1 \<le> x then nat \<lfloor>x\<rfloor> else nat \<lceil>1 / x\<rceil>))" by simp
next
  fix x :: real
  assume x: "2 \<le> x"
  then have "\<lfloor>x / 2\<rfloor> < \<lfloor>x\<rfloor>" by linarith
  with x show "(x / 2, x) \<in> measure (\<lambda>x. if 1 \<le> x then nat \<lfloor>x\<rfloor> else nat \<lceil>1 / x\<rceil>)"
    by simp
next
  fix x :: real
  assume "\<not> 2 \<le> x" and x: "0 < x \<and> x < 1"
  show "(x * 2, x) \<in> measure (\<lambda>x. if 1 \<le> x then nat \<lfloor>x\<rfloor> else nat \<lceil>1 / x\<rceil>)"
  proof (cases "1 \<le> x * 2")
    case True
    with x have "\<lfloor>x * 2\<rfloor> = 1" by linarith
    moreover from x have "1 < 1 / x" by simp
    then have "2 \<le> \<lceil>1 / x\<rceil>" by linarith
    ultimately show ?thesis using True x by simp
  next
    case False
    with x have "2 < 1 / x" by (simp add: field_simps)
    moreover have "1 / (x * 2) = (1 / x) / 2" by simp
    ultimately have "\<lceil>1 / (x * 2)\<rceil> < \<lceil>1 / x\<rceil>" by linarith
    moreover from x have "0 < \<lceil>1 / x\<rceil>" by simp
    ultimately show ?thesis using False x by simp
  qed
qed

declare binade.simps [simp del]

definition ulp_exp :: "real \<Rightarrow> int" where
  "ulp_exp x = max (binade \<bar>x\<bar>) (- 1022) - 52"

definition fl :: "real \<Rightarrow> real" where
  "fl x = of_int (round_half_even (x / 2 powi ulp_exp x)) * 2 powi ulp_exp x"

text \<open>\<open>a / b\<close> on floats, or on two ints: \<open>ZeroDivisionError\<close> when \<open>b\<close> is zero.\<close>

definition py_truediv :: "real \<Rightarrow> real \<Rightarrow> error + real" where
  "py_truediv a b = (if b = 0 then Inl ZeroDivisionError else Inr (fl (a / b)))"

text \<open>
  A real number that is a double, and a double of ordinary size: a time, a count or a rate
  within \<open>2^62\<close>.  The float arguments of the source are doubles.
\<close>

definition is_double :: "real \<Rightarrow> bool" where
  "is_double x \<longleftrightarrow> fl x = x"

definition ordinary :: "real \<Rightarrow> bool" where
  "ordinary x \<longleftrightarrow> is_double x \<and> \<bar>x\<bar> \<le> 2 ^ 62"

text \<open>\<open>core/decision.py\<close>: the dataclass \<open>Decision\<close>.\<close>

record Decision =
  allowed :: bool
  limit :: int
  remaining :: int
  reset_at :: int
  retry_after :: "int option"

section \<open>Fixed window (\<open>algorithms/fixed_window.py\<close>)\<close>

record FixedWindow =
  fw_limit :: int
  fw_window :: int

definition FixedWindow_init :: "int \<Rightarrow> int \<Rightarrow> FixedWindow" where
  "FixedWindow_init limit_arg window_arg = \<lparr>fw_limit = limit_arg, fw_window = window_arg\<rparr>"

definition FixedWindow_check_and_consume ::
  "FixedWindow \<Rightarrow> int \<Rightarrow> real \<Rightarrow> int \<Rightarrow> real \<Rightarrow> Decision \<times> int \<times> real" where
  "FixedWindow_check_and_consume self current_count0 window_start0 cost now =
     (let time_since_start = now - window_start0;
          (current_count, window_start) =
             (if time_since_start \<ge> of_int (fw_window self) then (0, now)
              else (current_count0, window_start0));
          reset = py_int (window_start + of_int (fw_window self))
      in if current_count + cost \<le> fw_limit self then
           (let new_count = current_count + cost;
                rem = fw_limit self - new_count
            in (\<lparr>allowed = True, limit = fw_limit self, remaining = rem,
                 reset_at = reset, retry_after = None\<rparr>,
                new_count, window_start))
         else
           (let retry = py_int (of_int reset - now) + 1
            in (\<lparr>allowed = False, limit = fw_limit self, remaining = 0,
                 reset_at = reset, retry_after = Some retry\<rparr>,
                current_count, window_start)))"

definition FixedWindow_initial_state :: "FixedWindow \<Rightarrow> real \<Rightarrow> int \<times> real" where
  "FixedWindow_initial_state self now = (0, now)"

section \<open>Token bucket (\<open>algorithms/token_bucket.py\<close>)\<close>

text \<open>
  \<open>capacity\<close>, \<open>window\<close> and \<open>cost\<close> are ints, the token count, the times and the rate are
  floats.  Where an int enters the float arithmetic the model writes \<open>of_int\<close>: for capacities
  and costs within \<open>2^53\<close> in magnitude, as the properties below assume, the int and its
  double are the same number.
\<close>

record TokenBucket =
  tb_capacity :: int
  tb_rate :: real
  tb_window :: int


text \<open>
  The first three statements of \<open>check_and_consume\<close>: the token count after the refill for
  the time elapsed since \<open>last_refill\<close>.
\<close>

definition TokenBucket_refill :: "TokenBucket \<Rightarrow> real \<Rightarrow> real \<Rightarrow> real \<Rightarrow> real" where
  "TokenBucket_refill self current_tokens last_refill now =
     (let elapsed = fl (now - last_refill);
          refill_amount = fl (elapsed * tb_rate self)
      in min (of_int (tb_capacity self)) (fl (current_tokens + refill_amount)))"

definition TokenBucket_check_and_consume ::
  "TokenBucket \<Rightarrow> real \<Rightarrow> real \<Rightarrow> int \<Rightarrow> real \<Rightarrow> error + (Decision \<times> real \<times> real)" where
  "TokenBucket_check_and_consume self current_tokens last_refill cost now =
     (let new_tokens = TokenBucket_refill self current_tokens last_refill now;
          tokens_needed = fl (of_int (tb_capacity self) - new_tokens)
      in case py_truediv tokens_needed (tb_rate self) of
           Inl e \<Rightarrow> Inl e
         | Inr time_to_full \<Rightarrow>
             (let reset = py_int (fl (now + time_to_full))
              in if new_tokens \<ge> of_int cost then
                   (let consumed = fl (new_tokens - of_int cost);
                        rem = py_int consumed
                    in Inr (\<lparr>allowed = True, limit = tb_capacity self, remaining = rem,
                             reset_at = reset, retry_after = None\<rparr>,
                            consumed, now))
                 else
                   (let tokens_deficit = fl (of_int cost - new_tokens)
                    in case py_truediv tokens_deficit (tb_rate self) of
                         Inl e \<Rightarrow> Inl e
                       | Inr wait \<Rightarrow>
                           Inr (\<lparr>allowed = False, limit = tb_capacity self, remaining = 0,
                                 reset_at = reset, retry_after = Some (py_int wait + 1)\<rparr>,
                                new_tokens, last_refill))))"

definition TokenBucket_initial_state :: "TokenBucket \<Rightarrow> real \<Rightarrow> real \<times> real" where
  "TokenBucket_initial_state self now = (fl (of_int (tb_capacity self)), now)"


section \<open>Sliding window (\<open>algorithms/sliding_window.py\<close>)\<close>

text \<open>
  The state is a \<open>dict[int, int]\<close> from sub-bucket index to count.  It is modelled by an
  association list in insertion order; a dictionary holds every key once.
\<close>

type_synonym buckets = "(int \<times> int) list"

record SlidingWindow =
  sw_limit :: int
  sw_window :: int
  sw_precision :: int
  sw_bucket_size :: real

text \<open>\<open>__init__\<close> stores \<open>window / precision\<close>, the quotient of two ints, as \<open>bucket_size\<close>.\<close>

definition SlidingWindow_init :: "int \<Rightarrow> int \<Rightarrow> int \<Rightarrow> error + SlidingWindow" where
  "SlidingWindow_init limit_arg window_arg precision_arg =
     (case py_truediv (of_int window_arg) (of_int precision_arg) of
        Inl e \<Rightarrow> Inl e
      | Inr bucket_size \<Rightarrow>
          Inr \<lparr>sw_limit = limit_arg, sw_window = window_arg, sw_precision = precision_arg,
               sw_bucket_size = bucket_size\<rparr>)"

text \<open>\<open>buckets.get(key, 0)\<close>.\<close>

definition dict_get :: "buckets \<Rightarrow> int \<Rightarrow> int \<Rightarrow> int" where
  "dict_get d key fallback = (case map_of d key of None \<Rightarrow> fallback | Some v \<Rightarrow> v)"

text \<open>
  The dictionary comprehension of \<open>check_and_consume\<close>: the entries whose index is above
  \<open>cutoff_bucket = current_bucket - precision\<close>.
\<close>

definition SlidingWindow_retain :: "SlidingWindow \<Rightarrow> int \<Rightarrow> buckets \<Rightarrow> buckets" where
  "SlidingWindow_retain self current_bucket bs =
     (let cutoff_bucket = current_bucket - sw_precision self
      in filter (\<lambda>(bucket_id, count). bucket_id > cutoff_bucket) bs)"

text \<open>
  \<open>current_bucket\<close> is \<open>int(now / self.bucket_size)\<close>, the truncated double quotient.  In
  \<open>reset_at\<close> the int \<open>oldest_bucket + precision + 1\<close> is converted to a double and multiplied.
\<close>

definition SlidingWindow_check_and_consume ::
  "SlidingWindow \<Rightarrow> buckets \<Rightarrow> int \<Rightarrow> real \<Rightarrow> error + (Decision \<times> buckets)" where
  "SlidingWindow_check_and_consume self bs cost now =
     (case py_truediv now (sw_bucket_size self) of
        Inl e \<Rightarrow> Inl e
      | Inr position \<Rightarrow>
          (let current_bucket = py_int position;
               new_buckets = SlidingWindow_retain self current_bucket bs;
               total_count = sum_list (map snd new_buckets);
               oldest_bucket = (if new_buckets \<noteq> [] then Min (set (map fst new_buckets))
                                else current_bucket);
               reset = py_int (fl (fl (of_int (oldest_bucket + sw_precision self + 1))
                                   * sw_bucket_size self))
           in if total_count + cost \<le> sw_limit self then
                (let updated = AList.update current_bucket
                                 (dict_get new_buckets current_bucket 0 + cost) new_buckets;
                     rem = sw_limit self - (total_count + cost)
                 in Inr (\<lparr>allowed = True, limit = sw_limit self, remaining = rem,
                          reset_at = reset, retry_after = None\<rparr>,
                         updated))
              else
                (let retry = py_int (sw_bucket_size self) + 1
                 in Inr (\<lparr>allowed = False, limit = sw_limit self, remaining = 0,
                          reset_at = reset, retry_after = Some retry\<rparr>,
                         new_buckets))))"

definition SlidingWindow_initial_state :: "SlidingWindow \<Rightarrow> buckets" where
  "SlidingWindow_initial_state self = []"

text \<open>
  The retry hint of a denied sliding-window check as the specification words it:
  \<open>ceil(window / precision) + 1\<close>, the ceiling of the sub-bucket size plus one.
\<close>

definition spec_sliding_window_retry_after :: "SlidingWindow \<Rightarrow> int" where
  "spec_sliding_window_retry_after self =
     \<lceil>(of_int (sw_window self) :: real) / of_int (sw_precision self)\<rceil> + 1"


section \<open>Policy (\<open>core/policy.py\<close>)\<close>

text \<open>
  \<open>KeyStrategy\<close> and \<open>Algorithm\<close> are enumerations.  The fields of a policy are modelled at
  their annotated types: \<open>limit\<close>, \<open>window\<close> and \<open>cost\<close> are ints, \<open>burst\<close> is an int or
  \<open>None\<close>, \<open>algorithm\<close> is a member of \<open>Algorithm\<close>.
\<close>

datatype KeyStrategy = IP | USER | API_KEY | COMPOSITE | CUSTOM

datatype Algorithm = TOKEN_BUCKET | FIXED_WINDOW | SLIDING_WINDOW | LEAKY_BUCKET

typedecl request

record Policy =
  policy_name :: string
  policy_limit :: int
  policy_window :: int
  policy_algorithm :: Algorithm
  policy_key_strategy :: KeyStrategy
  policy_burst :: "int option"
  policy_cost :: int
  policy_block_duration :: "int option"
  policy_key_extractor :: "(request \<Rightarrow> string option) option"
  policy_exemptions :: "string list"

text \<open>The fields of \<open>Policy(name, limit, window)\<close>, every other field at its default.\<close>

definition Policy_fields :: "string \<Rightarrow> int \<Rightarrow> int \<Rightarrow> Policy" where
  "Policy_fields name limit_arg window_arg =
     \<lparr>policy_name = name, policy_limit = limit_arg, policy_window = window_arg,
      policy_algorithm = TOKEN_BUCKET, policy_key_strategy = IP, policy_burst = None,
      policy_cost = 1, policy_block_duration = None, policy_key_extractor = None,
      policy_exemptions = []\<rparr>"

text \<open>
  The first statement of \<open>__post_init__\<close> is \<open>self.burst = int(self.limit * 1.2)\<close>.  The
  literal \<open>1.2\<close> is the double nearest to \<open>12/10\<close>.  The multiplication converts \<open>limit\<close> to a
  double, which raises \<open>OverflowError\<close> when the int is beyond the doubles (when it rounds to
  \<open>2^1024\<close> or more).  A product beyond the doubles is \<open>inf\<close>, and \<open>int(inf)\<close> raises
  \<open>OverflowError\<close>.
\<close>

definition one_point_two :: real where
  "one_point_two = fl (12 / 10)"

definition float_of_int :: "int \<Rightarrow> error + real" where
  "float_of_int n =
     (let x = fl (of_int n) in if 2 ^ 1024 \<le> \<bar>x\<bar> then Inl OverflowError else Inr x)"

definition default_burst :: "int \<Rightarrow> error + int" where
  "default_burst limit_arg =
     (case float_of_int limit_arg of
        Inl e \<Rightarrow> Inl e
      | Inr x \<Rightarrow>
          (let product = fl (x * one_point_two)
           in if 2 ^ 1024 \<le> \<bar>product\<bar> then Inl OverflowError else Inr (py_int product)))"

text \<open>
  \<open>__post_init__\<close> runs on the fields the caller gave and either raises or leaves the
  constructed policy.  Comparing a burst of \<open>None\<close> with the limit would raise a
  \<open>TypeError\<close>; the default set in the first statement excludes it.
\<close>

definition Policy_post_init :: "Policy \<Rightarrow> error + Policy" where
  "Policy_post_init given =
     (case (case policy_burst given of
              None \<Rightarrow>
                (case default_burst (policy_limit given) of
                   Inl e \<Rightarrow> Inl e
                 | Inr burst \<Rightarrow> Inr (given\<lparr>policy_burst := Some burst\<rparr>))
            | Some burst \<Rightarrow> Inr given) of
        Inl e \<Rightarrow> Inl e
      | Inr self \<Rightarrow>
          if policy_limit self \<le> 0 then Inl (ValueError ''limit must be positive'')
          else if policy_window self \<le> 0 then Inl (ValueError ''window must be positive'')
          else if policy_cost self \<le> 0 then Inl (ValueError ''cost must be positive'')
          else (case policy_burst self of
                  None \<Rightarrow> Inl TypeError
                | Some burst \<Rightarrow>
                    if burst < policy_limit self then Inl (ValueError ''burst must be >= limit'')
                    else Inr self))"

text \<open>
  The default burst as section 3 of the specification words it: \<open>ceil(limit * 1.2)\<close>.
\<close>

definition spec_default_burst :: "int \<Rightarrow> int" where
  "spec_default_burst limit_arg = \<lceil>of_int limit_arg * (12 / 10 :: real)\<rceil>"

section \<open>In-memory store (\<open>stores/memory.py\<close>)\<close>

text \<open>
  The store keeps two dictionaries, the values and the expiry deadlines.  Its methods read
  the clock with \<open>time.time()\<close>; the model takes the reading as the argument \<open>now\<close>, one
  reading for each call.  The lock is not modelled: the calls are taken one after another.
\<close>

record 'v InMemoryStore =
  store_data :: "string \<rightharpoonup> 'v"
  store_expiry :: "string \<rightharpoonup> real"

definition InMemoryStore_init :: "'v InMemoryStore" where
  "InMemoryStore_init = \<lparr>store_data = Map.empty, store_expiry = Map.empty\<rparr>"

definition InMemoryStore_cleanup_expired ::
  "'v InMemoryStore \<Rightarrow> string \<Rightarrow> real \<Rightarrow> 'v InMemoryStore" where
  "InMemoryStore_cleanup_expired self key now =
     (case store_expiry self key of
        None \<Rightarrow> self
      | Some deadline \<Rightarrow>
          if now \<ge> deadline
          then self\<lparr>store_data := (store_data self)(key := None),
                    store_expiry := (store_expiry self)(key := None)\<rparr>
          else self)"

text \<open>\<open>get\<close> returns the value, \<open>None\<close> for a key that is absent or expired.\<close>

definition InMemoryStore_get ::
  "'v InMemoryStore \<Rightarrow> string \<Rightarrow> real \<Rightarrow> 'v option \<times> 'v InMemoryStore" where
  "InMemoryStore_get self key now =
     (let cleaned = InMemoryStore_cleanup_expired self key now
      in (store_data cleaned key, cleaned))"

definition InMemoryStore_set ::
  "'v InMemoryStore \<Rightarrow> string \<Rightarrow> 'v \<Rightarrow> int option \<Rightarrow> real \<Rightarrow> 'v InMemoryStore" where
  "InMemoryStore_set self key val ttl now =
     (let written = self\<lparr>store_data := (store_data self)(key \<mapsto> val)\<rparr>
      in case ttl of
           Some seconds \<Rightarrow>
             written\<lparr>store_expiry := (store_expiry written)(key \<mapsto> now + of_int seconds)\<rparr>
         | None \<Rightarrow>
             if store_expiry written key \<noteq> None
             then written\<lparr>store_expiry := (store_expiry written)(key := None)\<rparr>
             else written)"

definition InMemoryStore_delete :: "'v InMemoryStore \<Rightarrow> string \<Rightarrow> 'v InMemoryStore" where
  "InMemoryStore_delete self key =
     self\<lparr>store_data := (store_data self)(key := None),
          store_expiry := (store_expiry self)(key := None)\<rparr>"

text \<open>
  \<open>increment\<close> works on any stored value.  The values it tells apart: numbers
  (\<open>isinstance(current, (int, float))\<close>, which holds of a \<open>bool\<close> too) and everything else.
\<close>

datatype pyval = PyInt int | PyFloat real | PyBool bool | PyStr string | PyNone

fun is_number :: "pyval \<Rightarrow> bool" where
  "is_number (PyInt n) = True"
| "is_number (PyFloat x) = True"
| "is_number (PyBool b) = True"
| "is_number v = False"

text \<open>\<open>current + delta\<close> for a number \<open>current\<close> and an \<open>int\<close> \<open>delta\<close>.\<close>

fun py_add_int :: "pyval \<Rightarrow> int \<Rightarrow> pyval" where
  "py_add_int (PyInt n) delta = PyInt (n + delta)"
| "py_add_int (PyFloat x) delta = PyFloat (x + of_int delta)"
| "py_add_int (PyBool b) delta = PyInt ((if b then 1 else 0) + delta)"
| "py_add_int v delta = v"

text \<open>\<open>int(new_value)\<close> for the number that \<open>increment\<close> returns.\<close>

fun py_int_of :: "pyval \<Rightarrow> int" where
  "py_int_of (PyInt n) = n"
| "py_int_of (PyFloat x) = py_int x"
| "py_int_of (PyBool b) = (if b then 1 else 0)"
| "py_int_of v = 0"

definition InMemoryStore_increment ::
  "pyval InMemoryStore \<Rightarrow> string \<Rightarrow> int \<Rightarrow> int option \<Rightarrow> real
     \<Rightarrow> int \<times> pyval InMemoryStore" where
  "InMemoryStore_increment self key delta ttl now =
     (let cleaned = InMemoryStore_cleanup_expired self key now;
          found = (case store_data cleaned key of None \<Rightarrow> PyInt 0 | Some v \<Rightarrow> v);
          current = (if \<not> is_number found then PyInt 0 else found);
          new_value = py_add_int current delta;
          written = cleaned\<lparr>store_data := (store_data cleaned)(key \<mapsto> new_value)\<rparr>;
          result =
            (case ttl of
               Some seconds \<Rightarrow>
                 if store_expiry written key = None
                 then written\<lparr>store_expiry :=
                                (store_expiry written)(key \<mapsto> now + of_int seconds)\<rparr>
                 else written
             | None \<Rightarrow> written)
      in (py_int_of new_value, result))"

section \<open>Penalty engine (\<open>core/penalty.py\<close>)\<close>

record PenaltyConfig =
  threshold :: int
  duration :: int
  multiplier :: real
  decay_rate :: real

text \<open>
  \<open>Penalty\<close>.  The dictionary that \<open>_save_penalty\<close> writes to the store has exactly the four
  fields of the dataclass, and \<open>get_penalty\<close> reads them back one by one; the stored value is
  modelled by the same record.
\<close>

record Penalty =
  abuse_score :: real
  penalty_until :: "int option"
  violations :: int
  last_violation :: "int option"

text \<open>\<open>Penalty()\<close>, every field at its default.\<close>

definition Penalty_new :: Penalty where
  "Penalty_new = \<lparr>abuse_score = 0, penalty_until = None, violations = 0, last_violation = None\<rparr>"

definition Penalty_is_active :: "Penalty \<Rightarrow> real \<Rightarrow> bool" where
  "Penalty_is_active self now =
     (case penalty_until self of
        None \<Rightarrow> False
      | Some until \<Rightarrow> py_int now < until)"

record PenaltyManager =
  pm_store :: "Penalty InMemoryStore"
  pm_config :: PenaltyConfig

definition PenaltyManager_get_penalty_key :: "string \<Rightarrow> string" where
  "PenaltyManager_get_penalty_key identifier = ''halt:penalty:'' @ identifier"

text \<open>
  \<open>get_penalty\<close>.  Reading the store evicts an expired entry, so the manager is returned
  too.  The test \<open>if penalty.last_violation:\<close> fails for \<open>None\<close> and for 0.
\<close>

definition PenaltyManager_get_penalty ::
  "PenaltyManager \<Rightarrow> string \<Rightarrow> real \<Rightarrow> Penalty \<times> PenaltyManager" where
  "PenaltyManager_get_penalty self identifier now =
     (let key = PenaltyManager_get_penalty_key identifier;
          (stored, store) = InMemoryStore_get (pm_store self) key now;
          self' = self\<lparr>pm_store := store\<rparr>
      in case stored of
           None \<Rightarrow> (Penalty_new, self')
         | Some penalty \<Rightarrow>
             (case last_violation penalty of
                None \<Rightarrow> (penalty, self')
              | Some violated \<Rightarrow>
                  if violated = 0 then (penalty, self')
                  else
                    (let hours_elapsed = (now - of_int violated) / 3600;
                         decay = hours_elapsed * decay_rate (pm_config self)
                     in (penalty\<lparr>abuse_score := max 0 (abuse_score penalty - decay)\<rparr>,
                         self'))))"

definition PenaltyManager_save_penalty ::
  "PenaltyManager \<Rightarrow> string \<Rightarrow> Penalty \<Rightarrow> real \<Rightarrow> PenaltyManager" where
  "PenaltyManager_save_penalty self identifier penalty now =
     (let key = PenaltyManager_get_penalty_key identifier;
          ttl = 7 * 24 * 3600
      in self\<lparr>pm_store := InMemoryStore_set (pm_store self) key penalty (Some ttl) now\<rparr>)"

definition PenaltyManager_record_violation ::
  "PenaltyManager \<Rightarrow> string \<Rightarrow> real \<Rightarrow> real \<Rightarrow> Penalty \<times> PenaltyManager" where
  "PenaltyManager_record_violation self identifier severity now =
     (let (loaded, self') = PenaltyManager_get_penalty self identifier now;
          counted = loaded\<lparr>abuse_score := abuse_score loaded + severity,
                           violations := violations loaded + 1,
                           last_violation := Some (py_int now)\<rparr>;
          penalty =
            (if abuse_score counted \<ge> of_int (threshold (pm_config self'))
                \<and> \<not> Penalty_is_active counted now
             then counted\<lparr>penalty_until := Some (py_int now + duration (pm_config self'))\<rparr>
             else counted)
      in (penalty, PenaltyManager_save_penalty self' identifier penalty now))"

definition PenaltyManager_get_rate_limit_multiplier ::
  "PenaltyManager \<Rightarrow> string \<Rightarrow> real \<Rightarrow> real \<times> PenaltyManager" where
  "PenaltyManager_get_rate_limit_multiplier self identifier now =
     (let (penalty, self') = PenaltyManager_get_penalty self identifier now
      in if Penalty_is_active penalty now then (multiplier (pm_config self'), self')
         else (1, self'))"

text \<open>
  Recording \<open>n\<close> violations of the same severity, one after another at the same time.
\<close>

fun record_violations ::
  "nat \<Rightarrow> PenaltyManager \<Rightarrow> string \<Rightarrow> real \<Rightarrow> real \<Rightarrow> PenaltyManager" where
  "record_violations 0 self identifier severity now = self"
| "record_violations (Suc n) self identifier severity now =
     record_violations n (snd (PenaltyManager_record_violation self identifier severity now))
       identifier severity now"

text \<open>
  The penalty that the store holds for an identifier at a time, and whether it is active as
  section 3 of the specification words it: \<open>penalty_until\<close> is set and lies after \<open>now\<close>.
\<close>

definition stored_penalty :: "PenaltyManager \<Rightarrow> string \<Rightarrow> real \<Rightarrow> Penalty option" where
  "stored_penalty self identifier now =
     fst (InMemoryStore_get (pm_store self) (PenaltyManager_get_penalty_key identifier) now)"

definition spec_penalty_active :: "Penalty option \<Rightarrow> real \<Rightarrow> bool" where
  "spec_penalty_active stored now =
     (case stored of
        None \<Rightarrow> False
      | Some penalty \<Rightarrow>
          (case penalty_until penalty of None \<Rightarrow> False | Some until \<Rightarrow> now < of_int until))"

section \<open>Calendar (\<open>datetime\<close> of the standard library)\<close>

text \<open>
  \<open>Quota._calculate_reset_time\<close> works on \<open>datetime\<close> values.  The library is not part of
  the repository; what the code needs of it is modelled here from the rules of the
  Gregorian calendar, for times from 1970-01-01 on: the day number of a date counted from
  1970-01-01, and the date of a day number.
\<close>

definition is_leap :: "int \<Rightarrow> bool" where
  "is_leap y \<longleftrightarrow> y mod 4 = 0 \<and> (y mod 100 \<noteq> 0 \<or> y mod 400 = 0)"

definition days_in_year :: "int \<Rightarrow> int" where
  "days_in_year y = (if is_leap y then 366 else 365)"

definition days_in_month :: "int \<Rightarrow> int \<Rightarrow> int" where
  "days_in_month y m =
     (if m = 2 then (if is_leap y then 29 else 28)
      else if m = 4 \<or> m = 6 \<or> m = 9 \<or> m = 11 then 30
      else 31)"

text \<open>The days of the first \<open>k\<close> years from 1970 on, and of the first \<open>k\<close> months of a year.\<close>

fun days_in_years :: "nat \<Rightarrow> int" where
  "days_in_years 0 = 0"
| "days_in_years (Suc k) = days_in_years k + days_in_year (1970 + int k)"

fun days_in_months :: "int \<Rightarrow> nat \<Rightarrow> int" where
  "days_in_months y 0 = 0"
| "days_in_months y (Suc k) = days_in_months y k + days_in_month y (int k + 1)"

text \<open>The day number of a date: 1970-01-01 is day 0.\<close>

definition epoch_day :: "int \<Rightarrow> int \<Rightarrow> int \<Rightarrow> int" where
  "epoch_day y m d = days_in_years (nat (y - 1970)) + days_in_months y (nat (m - 1)) + (d - 1)"

text \<open>
  The date of a day number: whole years are taken off from 1970 on, then whole months.
\<close>

function split_year :: "int \<Rightarrow> int \<Rightarrow> int \<times> int" where
  "split_year y days =
     (if days_in_year y \<le> days then split_year (y + 1) (days - days_in_year y)
      else (y, days))"
  by pat_completeness auto
termination
  by (relation "measure (\<lambda>(y, days). nat days)")
    (auto simp: days_in_year_def split: if_splits)

function split_month :: "int \<Rightarrow> int \<Rightarrow> int \<Rightarrow> int \<times> int" where
  "split_month y m days =
     (if m < 12 \<and> days_in_month y m \<le> days
      then split_month y (m + 1) (days - days_in_month y m)
      else (m, days))"
  by pat_completeness auto
termination
  by (relation "measure (\<lambda>(y, m, days). nat (12 - m))") auto

text \<open>Both equations recurse under a test; they are unfolded only where a proof asks for it.\<close>

declare split_year.simps [simp del] split_month.simps [simp del]

definition civil_date :: "int \<Rightarrow> int \<times> int \<times> int" where
  "civil_date day =
     (let (y, in_year) = split_year 1970 day;
          (m, in_month) = split_month y 1 in_year
      in (y, m, in_month + 1))"

text \<open>A naive \<open>datetime\<close>.\<close>

record datetime =
  dt_year :: int
  dt_month :: int
  dt_day :: int
  dt_hour :: int
  dt_minute :: int
  dt_second :: int
  dt_microsecond :: int

text \<open>The seconds from 1970-01-01 00:00:00 to a naive datetime, and back.\<close>

definition datetime_seconds :: "datetime \<Rightarrow> int" where
  "datetime_seconds dt =
     epoch_day (dt_year dt) (dt_month dt) (dt_day dt) * 86400
       + dt_hour dt * 3600 + dt_minute dt * 60 + dt_second dt"

definition datetime_of_seconds :: "int \<Rightarrow> int \<Rightarrow> datetime" where
  "datetime_of_seconds seconds micro =
     (let (y, m, d) = civil_date (seconds div 86400);
          in_day = seconds mod 86400
      in \<lparr>dt_year = y, dt_month = m, dt_day = d, dt_hour = in_day div 3600,
          dt_minute = in_day mod 3600 div 60, dt_second = in_day mod 60,
          dt_microsecond = micro\<rparr>)"

text \<open>
  \<open>datetime.utcnow()\<close> at the clock reading \<open>now\<close>.  Every use in the source sets the
  microsecond to 0; its rounding is not modelled.
\<close>

definition datetime_utcnow :: "real \<Rightarrow> datetime" where
  "datetime_utcnow now =
     datetime_of_seconds \<lfloor>now\<rfloor> \<lfloor>(now - of_int \<lfloor>now\<rfloor>) * 1000000\<rfloor>"

text \<open>\<open>dt + timedelta(seconds=s)\<close>.\<close>

definition datetime_plus_seconds :: "datetime \<Rightarrow> int \<Rightarrow> datetime" where
  "datetime_plus_seconds dt s =
     datetime_of_seconds (datetime_seconds dt + s) (dt_microsecond dt)"

text \<open>
  \<open>dt.timestamp()\<close> of a naive datetime reads it as local time.  \<open>utc_offset\<close> is the
  offset of the local time zone of the process, in seconds east of UTC, taken to be
  constant; it is 0 when the process runs in UTC.
\<close>

definition datetime_timestamp :: "int \<Rightarrow> datetime \<Rightarrow> real" where
  "datetime_timestamp utc_offset dt =
     of_int (datetime_seconds dt - utc_offset) + of_int (dt_microsecond dt) / 1000000"

section \<open>Quota accountant (\<open>core/quota.py\<close>)\<close>

datatype QuotaPeriod = HOURLY | DAILY | MONTHLY | YEARLY

text \<open>
  \<open>Quota\<close> after construction: \<open>__post_init__\<close> has replaced a \<open>reset_at\<close> of \<open>None\<close>.  The
  dictionary that \<open>consume_quota\<close> writes to the store has exactly the five fields of the
  dataclass, and \<open>get_quota\<close> reads them back one by one; the stored value is modelled by
  the same record.
\<close>

record Quota =
  quota_name :: string
  quota_limit :: int
  quota_period :: QuotaPeriod
  current_usage :: int
  quota_reset_at :: int

text \<open>
  \<open>_calculate_reset_time\<close>.  The last branch of the source raises for a period outside the
  enumeration; the type has no such value.
\<close>

definition Quota_calculate_reset_time :: "QuotaPeriod \<Rightarrow> real \<Rightarrow> int \<Rightarrow> int" where
  "Quota_calculate_reset_time period now utc_offset =
     (let current = datetime_utcnow now;
          next_reset =
            (case period of
               HOURLY \<Rightarrow>
                 datetime_plus_seconds
                   (current\<lparr>dt_minute := 0, dt_second := 0, dt_microsecond := 0\<rparr>) 3600
             | DAILY \<Rightarrow>
                 datetime_plus_seconds
                   (current\<lparr>dt_hour := 0, dt_minute := 0, dt_second := 0,
                            dt_microsecond := 0\<rparr>) 86400
             | MONTHLY \<Rightarrow>
                 if dt_month current = 12
                 then current\<lparr>dt_year := dt_year current + 1, dt_month := 1, dt_day := 1,
                              dt_hour := 0, dt_minute := 0, dt_second := 0,
                              dt_microsecond := 0\<rparr>
                 else current\<lparr>dt_month := dt_month current + 1, dt_day := 1,
                              dt_hour := 0, dt_minute := 0, dt_second := 0,
                              dt_microsecond := 0\<rparr>
             | YEARLY \<Rightarrow>
                 current\<lparr>dt_year := dt_year current + 1, dt_month := 1, dt_day := 1,
                         dt_hour := 0, dt_minute := 0, dt_second := 0, dt_microsecond := 0\<rparr>)
      in py_int (datetime_timestamp utc_offset next_reset))"

text \<open>The constructor: the dataclass fields, then \<open>__post_init__\<close>.\<close>

definition Quota_new ::
  "string \<Rightarrow> int \<Rightarrow> QuotaPeriod \<Rightarrow> int \<Rightarrow> int option \<Rightarrow> real \<Rightarrow> int \<Rightarrow> Quota" where
  "Quota_new name limit_arg period usage reset now utc_offset =
     \<lparr>quota_name = name, quota_limit = limit_arg, quota_period = period,
      current_usage = usage,
      quota_reset_at = (case reset of
                          None \<Rightarrow> Quota_calculate_reset_time period now utc_offset
                        | Some given \<Rightarrow> given)\<rparr>"

definition Quota_is_expired :: "Quota \<Rightarrow> real \<Rightarrow> bool" where
  "Quota_is_expired self now \<longleftrightarrow> py_int now \<ge> quota_reset_at self"

definition Quota_reset :: "Quota \<Rightarrow> real \<Rightarrow> int \<Rightarrow> Quota" where
  "Quota_reset self now utc_offset =
     self\<lparr>current_usage := 0,
          quota_reset_at := Quota_calculate_reset_time (quota_period self) now utc_offset\<rparr>"

record QuotaManager =
  qm_store :: "Quota InMemoryStore"

definition QuotaManager_get_quota_key :: "string \<Rightarrow> string \<Rightarrow> string" where
  "QuotaManager_get_quota_key identifier name = ''halt:quota:'' @ name @ '':'' @ identifier"

definition QuotaManager_get_quota ::
  "QuotaManager \<Rightarrow> string \<Rightarrow> Quota \<Rightarrow> real \<Rightarrow> int \<Rightarrow> Quota \<times> QuotaManager" where
  "QuotaManager_get_quota self identifier quota now utc_offset =
     (let key = QuotaManager_get_quota_key identifier (quota_name quota);
          (stored, store) = InMemoryStore_get (qm_store self) key now;
          self' = self\<lparr>qm_store := store\<rparr>
      in case stored of
           None \<Rightarrow>
             (Quota_new (quota_name quota) (quota_limit quota) (quota_period quota) 0 None
                now utc_offset,
              self')
         | Some found \<Rightarrow>
             (let current_quota =
                    Quota_new (quota_name found) (quota_limit found) (quota_period found)
                      (current_usage found) (Some (quota_reset_at found)) now utc_offset
              in if Quota_is_expired current_quota now
                 then (Quota_reset current_quota now utc_offset, self')
                 else (current_quota, self')))"

definition QuotaManager_check_quota ::
  "QuotaManager \<Rightarrow> string \<Rightarrow> Quota \<Rightarrow> int \<Rightarrow> real \<Rightarrow> int
     \<Rightarrow> (bool \<times> Quota) \<times> QuotaManager" where
  "QuotaManager_check_quota self identifier quota cost now utc_offset =
     (let (current_quota, self') = QuotaManager_get_quota self identifier quota now utc_offset;
          permitted = (current_usage current_quota + cost \<le> quota_limit current_quota)
      in ((permitted, current_quota), self'))"

definition QuotaManager_consume_quota ::
  "QuotaManager \<Rightarrow> string \<Rightarrow> Quota \<Rightarrow> int \<Rightarrow> real \<Rightarrow> int \<Rightarrow> Quota \<times> QuotaManager" where
  "QuotaManager_consume_quota self identifier quota cost now utc_offset =
     (let (loaded, self') = QuotaManager_get_quota self identifier quota now utc_offset;
          current_quota = loaded\<lparr>current_usage := current_usage loaded + cost\<rparr>;
          key = QuotaManager_get_quota_key identifier (quota_name quota);
          ttl = quota_reset_at current_quota - py_int now + 3600
      in (current_quota,
          self'\<lparr>qm_store :=
                  InMemoryStore_set (qm_store self') key current_quota (Some ttl) now\<rparr>))"

text \<open>
  The start of the next calendar period in UTC as section 4.6 of the specification words
  it: the next top of the hour, the next 00:00, the next first of a month at 00:00, the
  next first of January at 00:00.
\<close>

definition spec_next_period_start :: "QuotaPeriod \<Rightarrow> real \<Rightarrow> int" where
  "spec_next_period_start period now =
     (let (y, m, d) = civil_date (\<lfloor>now\<rfloor> div 86400)
      in case period of
           HOURLY \<Rightarrow> (\<lfloor>now\<rfloor> div 3600 + 1) * 3600
         | DAILY \<Rightarrow> (\<lfloor>now\<rfloor> div 86400 + 1) * 86400
         | MONTHLY \<Rightarrow>
             (if m = 12 then epoch_day (y + 1) 1 1 else epoch_day y (m + 1) 1) * 86400
         | YEARLY \<Rightarrow> epoch_day (y + 1) 1 1 * 86400)"

section \<open>Properties\<close>

subsection \<open>Fixed window\<close>

text \<open>
  Claim C7.  With \<open>limit = 3\<close>, \<open>window = 10\<close> and \<open>cost = 1\<close>, starting from
  \<open>initial_state\<close> at time 0 and feeding each returned state into the next call: the checks
  at times 0, 1 and 2 are allowed with \<open>remaining\<close> 2, 1 and 0, the check at time 3 is denied
  with \<open>retry_after = 8\<close> and \<open>reset_at = 10\<close>, and the check at time 10 rolls the window
  (count 1, window start 10) and is allowed with \<open>remaining = 2\<close>.
\<close>

theorem fixed_window_scenario:
  "(let fw = FixedWindow_init 3 10;
        (c0, w0) = FixedWindow_initial_state fw 0;
        (d1, c1, w1) = FixedWindow_check_and_consume fw c0 w0 1 0;
        (d2, c2, w2) = FixedWindow_check_and_consume fw c1 w1 1 1;
        (d3, c3, w3) = FixedWindow_check_and_consume fw c2 w2 1 2;
        (d4, c4, w4) = FixedWindow_check_and_consume fw c3 w3 1 3;
        (d5, c5, w5) = FixedWindow_check_and_consume fw c4 w4 1 10
    in allowed d1 \<and> remaining d1 = 2 \<and> retry_after d1 = None
     \<and> allowed d2 \<and> remaining d2 = 1 \<and> retry_after d2 = None
     \<and> allowed d3 \<and> remaining d3 = 0 \<and> retry_after d3 = None
     \<and> \<not> allowed d4 \<and> retry_after d4 = Some 8 \<and> reset_at d4 = 10
     \<and> allowed d5 \<and> remaining d5 = 2 \<and> (c5, w5) = (1, 10))"
  by (simp add: FixedWindow_check_and_consume_def FixedWindow_init_def
        FixedWindow_initial_state_def py_int_def Let_def)

subsection \<open>Rounding to the nearest double\<close>

lemma py_int_nonneg: "0 \<le> x \<Longrightarrow> py_int x = \<lfloor>x\<rfloor>"
  by (simp add: py_int_def)

lemma binade_bounds:
  assumes "0 < x"
  shows "2 powi binade x \<le> x \<and> x < 2 powi (binade x + 1)"
  using assms
proof (induction x rule: binade.induct)
  case (1 x)
  show ?case
  proof (cases "2 \<le> x")
    case True
    then have b: "binade x = binade (x / 2) + 1" by (simp add: binade.simps [of x])
    from True have "0 < x / 2" by simp
    from "1.IH"(1) [OF True this]
    have "2 powi binade (x / 2) \<le> x / 2" "x / 2 < 2 powi (binade (x / 2) + 1)" by simp_all
    then show ?thesis unfolding b by (simp_all add: power_int_add)
  next
    case False
    show ?thesis
    proof (cases "x < 1")
      case True
      with "1.prems" False have b: "binade x = binade (x * 2) - 1"
        by (simp add: binade.simps [of x])
      from "1.prems" have "0 < x * 2" by simp
      from "1.IH"(2) [OF False _ this] "1.prems" True
      have "2 powi binade (x * 2) \<le> x * 2" "x * 2 < 2 powi (binade (x * 2) + 1)" by simp_all
      then show ?thesis unfolding b by (simp_all add: power_int_add power_int_diff)
    next
      case F: False
      with False have "binade x = 0" by (simp add: binade.simps [of x])
      with False F show ?thesis by simp
    qed
  qed
qed

lemma binade_eq:
  assumes "2 powi k \<le> x" and "x < 2 powi (k + 1)"
  shows "binade x = k"
proof -
  have "(0::real) < 2 powi k" by simp
  with assms have x: "0 < x" by linarith
  note b = binade_bounds [OF x]
  have "\<not> binade x < k"
  proof
    assume "binade x < k"
    then have "binade x + 1 \<le> k" by simp
    then have "(2::real) powi (binade x + 1) \<le> 2 powi k" by (intro power_int_increasing) simp_all
    with b assms show False by linarith
  qed
  moreover have "\<not> k < binade x"
  proof
    assume "k < binade x"
    then have "k + 1 \<le> binade x" by simp
    then have "(2::real) powi (k + 1) \<le> 2 powi binade x" by (intro power_int_increasing) simp_all
    with b assms show False by linarith
  qed
  ultimately show ?thesis by linarith
qed

lemma binade_mono:
  assumes "0 < x" and "x \<le> y"
  shows "binade x \<le> binade y"
proof (rule ccontr)
  assume "\<not> binade x \<le> binade y"
  then have "binade y + 1 \<le> binade x" by simp
  then have "(2::real) powi (binade y + 1) \<le> 2 powi binade x"
    by (intro power_int_increasing) simp_all
  moreover from assms have "0 < y" by simp
  ultimately show False using binade_bounds [OF assms(1)] binade_bounds [OF \<open>0 < y\<close>] assms(2)
    by linarith
qed

lemma round_half_even_of_int [simp]: "round_half_even (of_int n) = n"
  by (simp add: round_half_even_def)

lemma round_half_even_zero [simp]: "round_half_even 0 = 0"
  by (simp add: round_half_even_def)

lemma two_powi_less_imp:
  assumes "(2::real) powi a < 2 powi b"
  shows "a < b"
proof (rule ccontr)
  assume "\<not> a < b"
  then have "(2::real) powi b \<le> 2 powi a" by (intro power_int_increasing) simp_all
  with assms show False by simp
qed

lemma round_half_even_near:
  assumes "\<bar>x - of_int n\<bar> < 1 / 2"
  shows "round_half_even x = n"
proof -
  from assms have "\<lfloor>x\<rfloor> = n \<and> x - of_int n < 1 / 2 \<or> \<lfloor>x\<rfloor> = n - 1 \<and> 1 / 2 < x - of_int (n - 1)"
    by (cases "of_int n \<le> x") (auto simp: floor_eq_iff abs_if split: if_splits)
  then show ?thesis by (auto simp: round_half_even_def Let_def)
qed

lemma round_half_even_bounds:
  "of_int (round_half_even x) \<le> x + 1 / 2 \<and> x - 1 / 2 \<le> of_int (round_half_even x)"
  unfolding round_half_even_def Let_def by (auto; linarith)

lemma round_half_even_le:
  assumes "x \<le> of_int n"
  shows "round_half_even x \<le> n"
proof -
  have "\<lfloor>x\<rfloor> \<le> n" using assms by (simp add: floor_le_iff)
  moreover have "\<lfloor>x\<rfloor> = n \<Longrightarrow> x = of_int n" using assms by linarith
  ultimately show ?thesis
    unfolding round_half_even_def Let_def by (auto; linarith)
qed

lemma round_half_even_ge:
  assumes "of_int n \<le> x"
  shows "n \<le> round_half_even x"
proof -
  have "n \<le> \<lfloor>x\<rfloor>" using assms by (simp add: le_floor_iff)
  then show ?thesis unfolding round_half_even_def Let_def by auto
qed

lemma round_half_even_mono:
  assumes "x \<le> y"
  shows "round_half_even x \<le> round_half_even y"
proof (cases "\<lfloor>x\<rfloor> = \<lfloor>y\<rfloor>")
  case True
  with assms show ?thesis
    unfolding round_half_even_def Let_def by (auto; linarith)
next
  case False
  with assms have "\<lfloor>x\<rfloor> + 1 \<le> \<lfloor>y\<rfloor>" using floor_mono [OF assms] by linarith
  then have "of_int (\<lfloor>x\<rfloor> + 1) \<le> y" by (simp only: le_floor_iff [symmetric])
  then have "\<lfloor>x\<rfloor> + 1 \<le> round_half_even y" by (rule round_half_even_ge)
  moreover have "round_half_even x \<le> \<lfloor>x\<rfloor> + 1"
    unfolding round_half_even_def Let_def by auto
  ultimately show ?thesis by linarith
qed

lemma round_half_even_minus: "round_half_even (- x) = - round_half_even x"
proof (cases "x = of_int \<lfloor>x\<rfloor>")
  case True
  then obtain n where "x = of_int n" ..
  then have "- x = of_int (- n)" by simp
  then show ?thesis unfolding \<open>x = of_int n\<close> by (simp only: round_half_even_of_int)
next
  case False
  then have f: "\<lfloor>- x\<rfloor> = - \<lfloor>x\<rfloor> - 1" by linarith
  have "x - of_int \<lfloor>x\<rfloor> < 1 / 2 \<or> x - of_int \<lfloor>x\<rfloor> = 1 / 2 \<or> 1 / 2 < x - of_int \<lfloor>x\<rfloor>"
    by linarith
  then show ?thesis
    unfolding round_half_even_def Let_def f by (auto; linarith)
qed

lemma ulp_exp_minus [simp]: "ulp_exp (- x) = ulp_exp x"
  by (simp add: ulp_exp_def)

lemma fl_zero [simp]: "fl 0 = 0"
  by (simp add: fl_def)

lemma fl_minus: "fl (- x) = - fl x"
  by (simp add: fl_def round_half_even_minus)

lemma fl_nonneg:
  assumes "0 \<le> x"
  shows "0 \<le> fl x"
proof -
  from assms have "of_int 0 \<le> x / 2 powi ulp_exp x" by simp
  then have "0 \<le> round_half_even (x / 2 powi ulp_exp x)" by (rule round_half_even_ge)
  then show ?thesis by (simp add: fl_def)
qed

lemma fl_nonpos:
  assumes "x \<le> 0"
  shows "fl x \<le> 0"
proof -
  from assms have "0 \<le> fl (- x)" by (intro fl_nonneg) simp
  then show ?thesis by (simp add: fl_minus)
qed

lemma abs_lt_binade:
  assumes "x \<noteq> 0"
  shows "\<bar>x\<bar> < 2 powi (ulp_exp x + 53)"
proof -
  from assms have "0 < \<bar>x\<bar>" by simp
  from binade_bounds [OF this] have "\<bar>x\<bar> < 2 powi (binade \<bar>x\<bar> + 1)" by simp
  also have "\<dots> \<le> 2 powi (ulp_exp x + 53)"
    by (intro power_int_increasing) (simp_all add: ulp_exp_def)
  finally show ?thesis .
qed

text \<open>A number with a significand of at most 53 bits is a double: rounding leaves it.\<close>

lemma fl_exact:
  assumes x: "x = of_int m * 2 powi k" and m: "\<bar>m\<bar> < 2 ^ 53" and k: "- 1074 \<le> k"
  shows "fl x = x"
proof (cases "m = 0")
  case True
  with x show ?thesis by simp
next
  case False
  with x have nz: "x \<noteq> 0" by simp
  define e where "e = ulp_exp x"
  have "\<bar>x\<bar> = of_int \<bar>m\<bar> * 2 powi k" unfolding x by (simp add: abs_mult)
  also from m have "\<dots> < 2 ^ 53 * 2 powi k"
    by (intro mult_strict_right_mono) (simp_all flip: of_int_less_iff)
  also have "\<dots> = 2 powi (k + 53)" by (simp add: power_int_add)
  finally have "\<bar>x\<bar> < 2 powi (k + 53)" .
  moreover from nz have "2 powi binade \<bar>x\<bar> \<le> \<bar>x\<bar>" using binade_bounds [of "\<bar>x\<bar>"] by simp
  ultimately have "(2::real) powi binade \<bar>x\<bar> < 2 powi (k + 53)" by linarith
  then have "binade \<bar>x\<bar> < k + 53" by (rule two_powi_less_imp)
  with k have ek: "e \<le> k" by (simp add: e_def ulp_exp_def)
  then obtain j where j: "k = e + int j" by (metis zle_iff_zadd)
  have "x / 2 powi e = of_int (m * 2 ^ j)"
    unfolding x j by (simp add: power_int_add)
  then have "round_half_even (x / 2 powi e) = m * 2 ^ j"
    by (simp only: round_half_even_of_int)
  then have "fl x = of_int (m * 2 ^ j) * 2 powi e" by (simp add: fl_def e_def)
  also have "\<dots> = x" unfolding x j by (simp add: power_int_add)
  finally show ?thesis .
qed

lemma fl_of_int:
  assumes "\<bar>n\<bar> \<le> 2 ^ 53"
  shows "fl (of_int n) = of_int n"
proof (cases "\<bar>n\<bar> = 2 ^ 53")
  case True
  then have "n = 2 ^ 53 \<or> n = - (2 ^ 53)" by linarith
  then have "of_int n = (of_int (n div 2 ^ 53) :: real) * 2 powi 53" by auto
  moreover from \<open>n = 2 ^ 53 \<or> n = - (2 ^ 53)\<close> have "\<bar>n div 2 ^ 53\<bar> < 2 ^ 53" by auto
  ultimately show ?thesis by (rule fl_exact) simp
next
  case False
  with assms have "\<bar>n\<bar> < 2 ^ 53" by simp
  moreover have "of_int n = (of_int n :: real) * 2 powi 0" by simp
  ultimately show ?thesis by (intro fl_exact [of _ n 0]) simp_all
qed

text \<open>The result of a rounding is a double.\<close>

lemma fl_idem [simp]: "fl (fl x) = fl x"
proof (cases "x = 0")
  case True
  then show ?thesis by simp
next
  case False
  define e where "e = ulp_exp x"
  define m where "m = round_half_even (x / 2 powi e)"
  have f: "fl x = of_int m * 2 powi e" by (simp add: fl_def m_def e_def)
  have e: "- 1074 \<le> e" by (simp add: e_def ulp_exp_def)
  from abs_lt_binade [OF False] have "\<bar>x\<bar> < 2 powi e * 2 ^ 53"
    by (simp add: e_def power_int_add)
  then have "x < 2 powi e * 2 ^ 53" "- x < 2 powi e * 2 ^ 53" by linarith+
  then have up: "x / 2 powi e \<le> of_int (2 ^ 53)"
    and down: "of_int (- (2 ^ 53)) \<le> x / 2 powi e"
    by (simp_all add: field_simps)
  from up have "m \<le> 2 ^ 53" unfolding m_def by (rule round_half_even_le)
  moreover from down have "- (2 ^ 53) \<le> m" unfolding m_def by (rule round_half_even_ge)
  ultimately have "m \<le> 2 ^ 53" "- (2 ^ 53) \<le> m" by simp_all
  then consider "\<bar>m\<bar> < 2 ^ 53" | "m = 2 ^ 53" | "m = - (2 ^ 53)" by linarith
  then show ?thesis
  proof cases
    case 1
    have "fl (fl x) = fl x" by (rule fl_exact [OF f 1 e])
    then show ?thesis .
  next
    case 2
    then have g: "fl x = of_int 1 * 2 powi (e + 53)" unfolding f by (simp add: power_int_add)
    have "fl (fl x) = fl x" by (rule fl_exact [OF g]) (use e in simp_all)
    then show ?thesis .
  next
    case 3
    then have g: "fl x = of_int (- 1) * 2 powi (e + 53)" unfolding f by (simp add: power_int_add)
    have "fl (fl x) = fl x" by (rule fl_exact [OF g]) (use e in simp_all)
    then show ?thesis .
  qed
qed

text \<open>Rounding is monotone.\<close>

lemma fl_mono_pos:
  assumes "0 < x" and "x \<le> y"
  shows "fl x \<le> fl y"
proof -
  from assms have y: "0 < y" by simp
  define ex where "ex = ulp_exp x"
  define ey where "ey = ulp_exp y"
  have le: "ex \<le> ey"
    using binade_mono [OF assms] assms y by (simp add: ex_def ey_def ulp_exp_def)
  show ?thesis
  proof (cases "ex = ey")
    case True
    from assms(2) have "x / 2 powi ey \<le> y / 2 powi ey" by (simp add: divide_right_mono)
    then have "round_half_even (x / 2 powi ey) \<le> round_half_even (y / 2 powi ey)"
      by (rule round_half_even_mono)
    then show ?thesis
      unfolding fl_def ex_def [symmetric] ey_def [symmetric] True
      by (simp add: mult_right_mono)
  next
    case False
    with le have lt: "ex + 53 \<le> ey + 52" by simp
    from assms(1) abs_lt_binade [of x] have "x < 2 powi ex * 2 ^ 53"
      by (simp add: ex_def power_int_add)
    then have "x / 2 powi ex \<le> of_int (2 ^ 53)" by (simp add: field_simps)
    then have "round_half_even (x / 2 powi ex) \<le> 2 ^ 53" by (rule round_half_even_le)
    then have "of_int (round_half_even (x / 2 powi ex)) * 2 powi ex \<le> 2 ^ 53 * (2::real) powi ex"
      by (intro mult_right_mono) (simp_all flip: of_int_le_iff)
    then have a: "fl x \<le> 2 powi (ex + 53)"
      by (simp add: fl_def ex_def power_int_add mult.commute)
    from False le have "- 1022 < binade \<bar>y\<bar>" "ey + 52 = binade \<bar>y\<bar>"
      by (auto simp: ex_def ey_def ulp_exp_def)
    with binade_bounds [of "\<bar>y\<bar>"] y have "2 powi (ey + 52) \<le> y" by simp
    then have "2 powi ey * 2 ^ 52 \<le> y" by (simp add: power_int_add)
    then have "of_int (2 ^ 52) \<le> y / 2 powi ey" by (simp add: field_simps)
    then have "2 ^ 52 \<le> round_half_even (y / 2 powi ey)" by (rule round_half_even_ge)
    then have "2 ^ 52 * (2::real) powi ey \<le> of_int (round_half_even (y / 2 powi ey)) * 2 powi ey"
      by (intro mult_right_mono) (simp_all flip: of_int_le_iff)
    then have b: "2 powi (ey + 52) \<le> fl y"
      by (simp add: fl_def ey_def power_int_add mult.commute)
    from lt have "(2::real) powi (ex + 53) \<le> 2 powi (ey + 52)"
      by (intro power_int_increasing) simp_all
    with a b show ?thesis by linarith
  qed
qed

lemma fl_mono:
  assumes "x \<le> y"
  shows "fl x \<le> fl y"
proof -
  consider "0 < x" | "x \<le> 0" "0 \<le> y" | "y < 0" by linarith
  then show ?thesis
  proof cases
    case 1
    then show ?thesis using assms by (rule fl_mono_pos)
  next
    case 2
    then have "fl x \<le> 0" "0 \<le> fl y" by (simp_all add: fl_nonpos fl_nonneg)
    then show ?thesis by simp
  next
    case 3
    with assms have "0 < - y" "- y \<le> - x" by simp_all
    then have "fl (- y) \<le> fl (- x)" by (rule fl_mono_pos)
    then show ?thesis by (simp add: fl_minus)
  qed
qed

text \<open>The rounding of a number whose binade is known.\<close>

lemma fl_eval:
  assumes "2 powi b \<le> \<bar>x\<bar>" and "\<bar>x\<bar> < 2 powi (b + 1)" and "- 1022 \<le> b"
  shows "fl x = of_int (round_half_even (x / 2 powi (b - 52))) * 2 powi (b - 52)"
proof -
  from assms(1,2) have "binade \<bar>x\<bar> = b" by (rule binade_eq)
  with assms(3) have "ulp_exp x = b - 52" by (simp add: ulp_exp_def)
  then show ?thesis by (simp add: fl_def)
qed

lemma fl_numeral: "numeral n \<le> (2::int) ^ 53 \<Longrightarrow> fl (numeral n) = numeral n"
  using fl_of_int [of "numeral n"] by simp

lemma fl_one [simp]: "fl 1 = 1"
  using fl_of_int [of 1] by simp

text \<open>A double below an integer stays below it after rounding, and one above stays above.\<close>

lemma fl_ge_int:
  assumes "of_int n \<le> x" and "\<bar>n\<bar> \<le> 2 ^ 53"
  shows "of_int n \<le> fl x"
  using fl_mono [OF assms(1)] fl_of_int [OF assms(2)] by simp

lemma fl_le_int:
  assumes "x \<le> of_int n" and "\<bar>n\<bar> \<le> 2 ^ 53"
  shows "fl x \<le> of_int n"
  using fl_mono [OF assms(1)] fl_of_int [OF assms(2)] by simp

text \<open>
  \<open>int(w / p)\<close> for two positive ints of ordinary size is the integer quotient: the double
  quotient never reaches the next integer.
\<close>

lemma floor_fl_quotient:
  assumes w: "0 < w" and p: "0 < p" and size: "w + p \<le> 2 ^ 52"
  shows "\<lfloor>fl (of_int w / of_int p)\<rfloor> = w div p"
proof -
  define k where "k = w div p"
  define x :: real where "x = of_int w / of_int p"
  have k0: "0 \<le> k" using w p by (simp add: k_def pos_imp_zdiv_nonneg_iff)
  have kw: "k * p \<le> w"
    using p div_mult_mod_eq [of w p] pos_mod_sign [of p w] unfolding k_def by linarith
  have "k * 1 \<le> k * p" using k0 p by (intro mult_left_mono) simp_all
  with kw have kp: "k \<le> w" by simp
  from kw have "(of_int k :: real) * of_int p \<le> of_int w"
    by (metis of_int_le_iff of_int_mult)
  then have lower: "of_int k \<le> x"
    unfolding x_def using p by (simp add: pos_le_divide_eq)
  have "(k + 1) * p = k * p + p" by (simp add: algebra_simps)
  moreover have "w = k * p + w mod p" by (simp add: k_def)
  moreover have "w mod p < p" using p by simp
  ultimately have "w < (k + 1) * p" by linarith
  then have "w + 1 \<le> (k + 1) * p" by simp
  then have "(of_int w :: real) + 1 \<le> of_int (k + 1) * of_int p"
    by (metis of_int_1 of_int_add of_int_le_iff of_int_mult)
  then have upper: "x \<le> of_int (k + 1) - 1 / of_int p"
    unfolding x_def using p by (simp add: field_simps)
  define b where "b = binade (of_int p)"
  from p have pp: "(0::real) < of_int p" by simp
  note bb = binade_bounds [OF pp, folded b_def]
  have b0: "0 \<le> b"
  proof (rule ccontr)
    assume "\<not> 0 \<le> b"
    then have "b + 1 \<le> 0" by simp
    then have "(2::real) powi (b + 1) \<le> 2 powi 0" by (intro power_int_increasing) simp_all
    with bb p show False by simp
  qed
  define j where "j = nat (b + 1)"
  have q: "(2::real) powi (b + 1) = 2 ^ j" using b0 by (simp add: j_def power_int_def)
  have q1: "of_int p < (2::real) ^ j" using bb q by simp
  have "(2::real) ^ j = 2 * 2 powi b" using q by (simp add: power_int_add)
  with bb have q2: "(2::real) ^ j \<le> 2 * of_int p" by simp
  then have q2i: "(2::int) ^ j \<le> 2 * p"
    by (metis of_int_le_iff of_int_mult of_int_numeral of_int_power)
  define m where "m = (k + 1) * 2 ^ j - 1"
  define y :: real where "y = of_int m * 2 powi (- int j)"
  have "(k + 1) * 2 ^ j \<le> (k + 1) * (2 * p)" using q2i k0 by (intro mult_left_mono) simp_all
  also have "\<dots> = 2 * (k * p + p)" by (simp add: algebra_simps)
  also have "\<dots> \<le> 2 * (w + p)" using kw by simp
  also have "\<dots> \<le> 2 ^ 53" using size by simp
  finally have big: "(k + 1) * 2 ^ j \<le> 2 ^ 53" .
  have "(1::int) \<le> 2 ^ j" by simp
  then have "1 * 1 \<le> (k + 1) * 2 ^ j" using k0 by (intro mult_mono) simp_all
  then have "1 \<le> (k + 1) * 2 ^ j" by simp
  with big have m: "\<bar>m\<bar> < 2 ^ 53" by (simp add: m_def)
  have "(2::int) ^ j \<le> (k + 1) * 2 ^ j"
    using mult_right_mono [of 1 "k + 1" "(2::int) ^ j"] k0 by simp
  then have "(2::int) ^ j \<le> 2 ^ 53" using big by (rule order_trans)
  then have "j \<le> 53" by (rule power_le_imp_le_exp [rotated]) simp
  then have jr: "- 1074 \<le> - int j" by simp
  have fy: "fl y = y" by (rule fl_exact [OF y_def m jr])
  have yv: "y = of_int (k + 1) - 1 / 2 ^ j"
    by (simp add: y_def m_def power_int_minus field_simps)
  have "1 / (2::real) ^ j \<le> 1 / of_int p" using q1 pp by (simp add: frac_le)
  with upper yv have "x \<le> y" by simp
  then have "fl x \<le> fl y" by (rule fl_mono)
  with fy yv have "fl x < of_int (k + 1)"
    by (smt (verit) divide_pos_pos zero_less_power zero_less_numeral zero_less_one)
  moreover from kp w p size have "\<bar>k\<bar> \<le> 2 ^ 53" using k0 by simp
  then have "of_int k \<le> fl x" using lower by (intro fl_ge_int)
  ultimately have "\<lfloor>fl x\<rfloor> = k" by (simp add: floor_eq_iff)
  then show ?thesis by (simp add: x_def k_def)
qed

lemma fl_near:
  assumes "2 powi b \<le> \<bar>x\<bar>" and "\<bar>x\<bar> < 2 powi (b + 1)" and "- 1022 \<le> b"
    and "\<bar>x / 2 powi (b - 52) - of_int n\<bar> < 1 / 2"
  shows "fl x = of_int n * 2 powi (b - 52)"
  using fl_eval [OF assms(1,2,3)] round_half_even_near [OF assms(4)] by simp


lemma fl_twelve_tenths: "fl (12 / 10) = 5404319552844595 / 2 ^ 52"
proof -
  have "fl (12 / 10) = of_int (round_half_even ((12 / 10) / 2 powi (0 - 52))) * 2 powi (0 - 52)"
    by (rule fl_eval) simp_all
  also have "(12 / 10 :: real) / 2 powi (0 - 52) = 27021597764222976 / 5"
    by (simp add: power_int_minus)
  also have "round_half_even (27021597764222976 / 5) = 5404319552844595"
    by (simp add: round_half_even_def Let_def)
  finally show ?thesis by (simp add: power_int_minus)
qed

lemma fl_ten_thirds: "fl (10 / 3) = 7505999378950827 / 2 ^ 51"
proof -
  have "fl (10 / 3) = of_int (round_half_even ((10 / 3) / 2 powi (1 - 52))) * 2 powi (1 - 52)"
    by (rule fl_eval) simp_all
  also have "(10 / 3 :: real) / 2 powi (1 - 52) = 22517998136852480 / 3"
    by (simp add: power_int_minus)
  also have "round_half_even (22517998136852480 / 3) = 7505999378950827"
    by (simp add: round_half_even_def Let_def)
  finally show ?thesis by (simp add: power_int_minus)
qed

text \<open>A whole power of two, down to the smallest subnormal number, is a double.\<close>

lemma fl_two_powi: "- 1074 \<le> k \<Longrightarrow> fl (2 powi k) = 2 powi k"
  by (rule fl_exact [of _ 1 k]) simp_all

text \<open>From 1 on, rounding changes a number by at most one part in \<open>2^53\<close>.\<close>

lemma fl_rel_error:
  assumes "1 \<le> x"
  shows "x - x / 2 ^ 53 \<le> fl x"
proof -
  from assms have x0: "0 < x" by simp
  define b where "b = binade x"
  note bb = binade_bounds [OF x0, folded b_def]
  have b0: "0 \<le> b"
  proof (rule ccontr)
    assume "\<not> 0 \<le> b"
    then have "b + 1 \<le> 0" by simp
    then have "(2::real) powi (b + 1) \<le> 2 powi 0" by (intro power_int_increasing) simp_all
    with bb assms show False by simp
  qed
  then have e: "ulp_exp x = b - 52" using x0 by (simp add: ulp_exp_def b_def)
  define u :: real where "u = 2 powi (b - 52)"
  have upos: "0 < u" by (simp add: u_def)
  have "u = 2 powi b / 2 ^ 52" by (simp add: u_def power_int_diff)
  with bb have ule: "u \<le> x / 2 ^ 52" by (simp add: divide_right_mono)
  have f: "fl x = of_int (round_half_even (x / u)) * u" by (simp add: fl_def e u_def)
  have "x / u - 1 / 2 \<le> of_int (round_half_even (x / u))"
    using round_half_even_bounds [of "x / u"] by simp
  then have "(x / u - 1 / 2) * u \<le> of_int (round_half_even (x / u)) * u"
    using upos by (simp only: mult_le_cancel_right_pos)
  then have "x - u / 2 \<le> fl x" using upos by (simp add: f algebra_simps)
  with ule show ?thesis by simp
qed

lemma fl_half: "fl (1 / 2) = 1 / 2"
  by (rule fl_exact [of _ 1 "- 1"]) (simp_all add: power_int_minus)


text \<open>A gain of at least one token is never lost in rounding below \<open>2^53\<close>.\<close>

lemma fl_gt_of_gain:
  assumes r0: "0 \<le> r" and rc: "r < of_int c" and c: "c \<le> 2 ^ 53" and g: "1 \<le> g"
  shows "r < fl (r + g)"
proof -
  have "\<lfloor>r\<rfloor> < c" using rc by (simp only: floor_less_iff)
  moreover have "0 \<le> \<lfloor>r\<rfloor>" using r0 by simp
  ultimately have b: "\<bar>\<lfloor>r\<rfloor> + 1\<bar> \<le> 2 ^ 53" using c by linarith
  have "of_int (\<lfloor>r\<rfloor> + 1) \<le> r + g" using g by (simp add: add_mono)
  then have "of_int (\<lfloor>r\<rfloor> + 1) \<le> fl (r + g)" using b by (rule fl_ge_int)
  moreover have "r < of_int (\<lfloor>r\<rfloor> + 1)" by simp
  ultimately show ?thesis by (rule less_le_trans [rotated])
qed

subsection \<open>Token bucket\<close>

lemma refill_le_capacity:
  "TokenBucket_refill self tokens last_refill now \<le> of_int (tb_capacity self)"
  by (simp add: TokenBucket_refill_def Let_def)

lemma refill_is_double:
  assumes "\<bar>tb_capacity self\<bar> \<le> 2 ^ 53"
  shows "fl (TokenBucket_refill self tokens last_refill now)
         = TokenBucket_refill self tokens last_refill now"
  using fl_of_int [OF assms] by (simp add: TokenBucket_refill_def Let_def min_def)















text \<open>
  Claim C9, as it is stated, fails on the code: capacity 5, one token per two seconds, 4
  tokens, \<open>last_refill = 0\<close>, \<open>now = 10\<close> and \<open>cost = 6\<close> meet its conditions
  (\<open>0 \<le> 4 < 5\<close>, \<open>0 < 10\<close>, and the refilled count 5 is below 6).  The check is denied and
  returns \<open>(5, 0)\<close>; the second check at the same time computes the refilled count 5 again,
  which is not strictly larger.
\<close>

theorem token_bucket_denied_counterexample:
  "(0::real) \<le> 4 \<and> (4::real) < of_int (tb_capacity \<lparr>tb_capacity = 5, tb_rate = 1/2, tb_window = 10\<rparr>)
   \<and> (0::real) < 10
   \<and> TokenBucket_refill \<lparr>tb_capacity = 5, tb_rate = 1/2, tb_window = 10\<rparr> 4 0 10 = 5
   \<and> (5::real) < of_int 6
   \<and> TokenBucket_check_and_consume \<lparr>tb_capacity = 5, tb_rate = 1/2, tb_window = 10\<rparr> 4 0 6 10
       = Inr (\<lparr>allowed = False, limit = 5, remaining = 0, reset_at = 10, retry_after = Some 3\<rparr>,
              5, 0)
   \<and> TokenBucket_refill \<lparr>tb_capacity = 5, tb_rate = 1/2, tb_window = 10\<rparr> 5 0 10 = 5"
  by (simp add: TokenBucket_refill_def TokenBucket_check_and_consume_def
      py_truediv_def py_int_def Let_def fl_numeral)

text \<open>
  Claim C9, amended.  Take a bucket with a capacity and a cost within \<open>2^53\<close> in magnitude and
  a state, time and rate of ordinary size.  A denied check returns the refilled count
  \<open>tokens'\<close>, which is below \<open>cost\<close>, paired with the unchanged \<open>last_refill\<close>.  A second check
  at the same \<open>now\<close> on the returned state credits the same interval again: its refilled
  count is \<open>min(capacity, tokens' + gain)\<close> with the same \<open>gain = (now - last_refill) * rate\<close>,
  in double arithmetic.  It is at most the capacity; it is never below \<open>tokens'\<close> when the
  gain is not negative (which holds for \<open>last_refill \<le> now\<close> and \<open>rate \<ge> 0\<close>); and it is strictly
  larger than \<open>tokens'\<close> exactly when \<open>tokens'\<close> is below the capacity and the double sum
  \<open>tokens' + gain\<close> is above \<open>tokens'\<close>, in particular whenever \<open>tokens \<ge> 0\<close>, \<open>tokens'\<close> is
  below the capacity and the gain is at least one token.
\<close>

theorem token_bucket_denied_refills_again:
  assumes res: "TokenBucket_check_and_consume self tokens last_refill cost now
                  = Inr (d, new_tokens, new_last_refill)"
    and denied: "\<not> allowed d"
    and ref: "refilled = TokenBucket_refill self tokens last_refill now"
    and gain: "gain = fl (fl (now - last_refill) * tb_rate self)"
    and second: "refilled' = TokenBucket_refill self new_tokens new_last_refill now"
    and cap: "\<bar>tb_capacity self\<bar> \<le> 2 ^ 53" and cost: "\<bar>cost\<bar> \<le> 2 ^ 53"
    and range: "ordinary tokens" "ordinary last_refill" "ordinary now" "ordinary (tb_rate self)"
  shows "new_tokens = refilled \<and> new_last_refill = last_refill \<and> refilled < of_int cost
       \<and> refilled' = min (of_int (tb_capacity self)) (fl (refilled + gain))
       \<and> refilled' \<le> of_int (tb_capacity self)
       \<and> (last_refill \<le> now \<and> 0 \<le> tb_rate self \<longrightarrow> 0 \<le> gain)
       \<and> (0 \<le> gain \<longrightarrow> refilled \<le> refilled')
       \<and> (refilled < refilled' \<longleftrightarrow>
             refilled < of_int (tb_capacity self) \<and> refilled < fl (refilled + gain))
       \<and> (0 \<le> tokens \<and> 1 \<le> gain \<and> refilled < of_int (tb_capacity self)
            \<longrightarrow> refilled < refilled')"
proof -
  from res denied have st: "new_tokens = refilled \<and> new_last_refill = last_refill
      \<and> refilled < of_int cost"
    by (auto simp: TokenBucket_check_and_consume_def py_truediv_def Let_def ref [symmetric]
          split: if_splits)
  then have nt: "new_tokens = refilled" and nl: "new_last_refill = last_refill" by simp_all
  have eq: "refilled' = min (of_int (tb_capacity self)) (fl (refilled + gain))"
    unfolding second nt nl gain by (simp add: TokenBucket_refill_def Let_def)
  have le: "refilled \<le> of_int (tb_capacity self)" unfolding ref by (rule refill_le_capacity)
  have le': "refilled' \<le> of_int (tb_capacity self)" unfolding eq by simp
  have dbl: "fl refilled = refilled" unfolding ref using cap by (rule refill_is_double)
  have g0: "last_refill \<le> now \<and> 0 \<le> tb_rate self \<longrightarrow> 0 \<le> gain"
  proof
    assume a: "last_refill \<le> now \<and> 0 \<le> tb_rate self"
    then have "0 \<le> fl (now - last_refill)" by (intro fl_nonneg) simp
    with a have "0 \<le> fl (now - last_refill) * tb_rate self" by simp
    then show "0 \<le> gain" unfolding gain by (rule fl_nonneg)
  qed
  have mono: "0 \<le> gain \<longrightarrow> refilled \<le> refilled'"
  proof
    assume "0 \<le> gain"
    then have "refilled \<le> refilled + gain" by simp
    then have "fl refilled \<le> fl (refilled + gain)" by (rule fl_mono)
    with dbl le show "refilled \<le> refilled'" unfolding eq by simp
  qed
  have strict: "refilled < refilled' \<longleftrightarrow>
      refilled < of_int (tb_capacity self) \<and> refilled < fl (refilled + gain)"
    unfolding eq by auto
  have big: "0 \<le> tokens \<and> 1 \<le> gain \<and> refilled < of_int (tb_capacity self)
      \<longrightarrow> refilled < refilled'"
  proof
    assume a: "0 \<le> tokens \<and> 1 \<le> gain \<and> refilled < of_int (tb_capacity self)"
    then have "refilled = fl (tokens + gain)"
      unfolding ref gain by (simp add: TokenBucket_refill_def Let_def min_def split: if_splits)
    moreover from a have "0 \<le> fl (tokens + gain)" by (intro fl_nonneg) simp
    ultimately have r0: "0 \<le> refilled" by simp
    from cap have c: "tb_capacity self \<le> 2 ^ 53" by simp
    from a have rc: "refilled < of_int (tb_capacity self)" and g: "1 \<le> gain" by simp_all
    have "refilled < fl (refilled + gain)" by (rule fl_gt_of_gain [OF r0 rc c g])
    with rc show "refilled < refilled'" unfolding eq by simp
  qed
  show ?thesis
    by (rule conjI [OF conjunct1 [OF st] conjI [OF conjunct1 [OF conjunct2 [OF st]]
          conjI [OF conjunct2 [OF conjunct2 [OF st]]
            conjI [OF eq conjI [OF le' conjI [OF g0 conjI [OF mono conjI [OF strict big]]]]]]]])
qed

theorem token_bucket_denied_refills_again_witness:
  "TokenBucket_check_and_consume \<lparr>tb_capacity = 5, tb_rate = 1/2, tb_window = 10\<rparr> 1 0 3 2
     = Inr (\<lparr>allowed = False, limit = 5, remaining = 0, reset_at = 8, retry_after = Some 3\<rparr>, 2, 0)
   \<and> TokenBucket_refill \<lparr>tb_capacity = 5, tb_rate = 1/2, tb_window = 10\<rparr> 1 0 2 = 2
   \<and> TokenBucket_refill \<lparr>tb_capacity = 5, tb_rate = 1/2, tb_window = 10\<rparr> 2 0 2 = 3
   \<and> (2::real) < of_int 3 \<and> (3::real) = min (of_int 5) (fl (2 + 1))"
proof -
  let ?tb = "\<lparr>tb_capacity = 5, tb_rate = 1/2, tb_window = 10\<rparr>"
  let ?d = "\<lparr>allowed = False, limit = 5, remaining = 0, reset_at = 8, retry_after = Some 3\<rparr>"
  have res: "TokenBucket_check_and_consume ?tb 1 0 3 2 = Inr (?d, 2, 0)"
    by (simp add: TokenBucket_check_and_consume_def TokenBucket_refill_def py_truediv_def
        py_int_def Let_def fl_numeral)
  have den: "\<not> allowed ?d" by simp
  have r1: "(2::real) = TokenBucket_refill ?tb 1 0 2"
    by (simp add: TokenBucket_refill_def fl_numeral)
  have g: "(1::real) = fl (fl (2 - 0) * tb_rate ?tb)" by (simp add: fl_numeral)
  have r2: "(3::real) = TokenBucket_refill ?tb 2 0 2"
    by (simp add: TokenBucket_refill_def fl_numeral)
  have c: "\<bar>tb_capacity ?tb\<bar> \<le> 2 ^ 53" "\<bar>3::int\<bar> \<le> 2 ^ 53" by simp_all
  have o: "ordinary 1" "ordinary 0" "ordinary 2" "ordinary (tb_rate ?tb)"
    by (simp_all add: ordinary_def is_double_def fl_numeral fl_half)
  note w = token_bucket_denied_refills_again [OF res den r1 g r2 c o]
  note a = w [THEN conjunct2, THEN conjunct2, THEN conjunct1]
  note b = w [THEN conjunct2, THEN conjunct2, THEN conjunct2, THEN conjunct1]
  from b have b': "(3::real) = min (of_int 5) (fl (2 + 1))" by (simp only: TokenBucket.select_convs)
  show ?thesis
    by (rule conjI [OF res conjI [OF r1 [symmetric] conjI [OF r2 [symmetric] conjI [OF a b']]]])
qed

subsection \<open>Sliding window\<close>

lemma init_bucket_size:
  assumes "SlidingWindow_init limit_arg window_arg precision_arg = Inr self"
  shows "precision_arg \<noteq> 0
       \<and> sw_bucket_size self = fl (of_int window_arg / of_int precision_arg)
       \<and> sw_precision self = precision_arg \<and> sw_limit self = limit_arg
       \<and> sw_window self = window_arg"
  using assms
  by (auto simp: SlidingWindow_init_def py_truediv_def split: if_splits)

lemma ceiling_of_int_div:
  assumes "0 < p"
  shows "\<lceil>(of_int w :: real) / of_int p\<rceil> = (if p dvd w then w div p else w div p + 1)"
proof -
  have "\<lceil>(of_int w :: real) / of_int p\<rceil> = - (- w div p)" by (rule ceiling_divide_eq_div)
  also have "\<dots> = (if w mod p = 0 then w div p else w div p + 1)"
    using assms by (simp add: zdiv_zminus1_eq_if)
  finally show ?thesis by (simp add: dvd_eq_mod_eq_0)
qed

lemma fl_exact_quotient: "fl (7505999378950827 / 562949953421312) = 7505999378950827 / 562949953421312"
  by (rule fl_exact [of _ 7505999378950827 "- 49"]) (simp_all add: power_int_minus)

text \<open>
  Claim C5, as the specification states it, fails on the code when \<open>precision\<close> does not
  divide \<open>window\<close>: with \<open>limit = 1\<close>, \<open>window = 10\<close> and \<open>precision = 3\<close> the sub-bucket
  size is the double nearest to \<open>10/3\<close>; a second request at time 0 is denied with
  \<open>retry_after = 4\<close>, where \<open>ceil(window / precision) + 1\<close> is 5.
\<close>

theorem sliding_window_retry_after_counterexample:
  "SlidingWindow_init 1 10 3
     = Inr \<lparr>sw_limit = 1, sw_window = 10, sw_precision = 3,
            sw_bucket_size = 7505999378950827 / 2 ^ 51\<rparr>
   \<and> SlidingWindow_check_and_consume
        \<lparr>sw_limit = 1, sw_window = 10, sw_precision = 3,
         sw_bucket_size = 7505999378950827 / 2 ^ 51\<rparr> [(0, 1)] 1 0
       = Inr (\<lparr>allowed = False, limit = 1, remaining = 0, reset_at = 13,
               retry_after = Some 4\<rparr>, [(0, 1)])
   \<and> spec_sliding_window_retry_after
        \<lparr>sw_limit = 1, sw_window = 10, sw_precision = 3,
         sw_bucket_size = 7505999378950827 / 2 ^ 51\<rparr> = 5"
  by (simp add: SlidingWindow_init_def SlidingWindow_check_and_consume_def
      SlidingWindow_retain_def spec_sliding_window_retry_after_def py_truediv_def py_int_def
      Let_def fl_ten_thirds fl_numeral fl_exact_quotient)

lemma fl_seven_halves: "fl (7 / 2) = 7 / 2"
  by (rule fl_exact [of _ 7 "- 1"]) (simp_all add: power_int_minus)

lemma fl_twenty_one_halves: "fl (21 / 2) = 21 / 2"
  by (rule fl_exact [of _ 21 "- 1"]) (simp_all add: power_int_minus)

text \<open>
  Claim C5, amended.  Take a sliding window built from a positive \<open>window\<close> and a positive
  \<open>precision\<close> with \<open>window + precision \<le> 2^52\<close>, and a double \<open>now\<close>.  A check that
  returns is denied exactly when the retained total count plus \<open>cost\<close> exceeds \<open>limit\<close>.
  Every denied check returns the
  retained sub-buckets and has \<open>retry_after = window div precision + 1\<close>, the integer quotient
  plus one: \<open>int()\<close> truncates the sub-bucket size.  This is \<open>ceil(window / precision) + 1\<close>
  exactly when \<open>precision\<close> divides \<open>window\<close>.
\<close>

theorem sliding_window_denied_retry_after:
  assumes init: "SlidingWindow_init limit_arg window_arg precision_arg = Inr self"
    and pos: "0 < window_arg" "0 < precision_arg"
    and size: "window_arg + precision_arg \<le> 2 ^ 52"
    and now: "is_double now"
    and res: "SlidingWindow_check_and_consume self bs cost now = Inr (d, new_buckets)"
    and retained: "retained = SlidingWindow_retain self (py_int (fl (now / sw_bucket_size self))) bs"
  shows "(allowed d \<longleftrightarrow> sum_list (map snd retained) + cost \<le> limit_arg)
       \<and> (\<not> allowed d \<longrightarrow>
             new_buckets = retained
           \<and> retry_after d = Some (window_arg div precision_arg + 1))
       \<and> (window_arg div precision_arg + 1 = spec_sliding_window_retry_after self
            \<longleftrightarrow> precision_arg dvd window_arg)"
proof -
  note i = init_bucket_size [OF init]
  from i have bs: "sw_bucket_size self = fl (of_int window_arg / of_int precision_arg)" by simp
  from pos have "(0::real) \<le> of_int window_arg / of_int precision_arg" by simp
  then have "0 \<le> sw_bucket_size self" unfolding bs by (rule fl_nonneg)
  then have "py_int (sw_bucket_size self) = \<lfloor>sw_bucket_size self\<rfloor>" by (rule py_int_nonneg)
  also have "\<dots> = window_arg div precision_arg"
    unfolding bs using pos size by (rule floor_fl_quotient)
  finally have trunc: "py_int (sw_bucket_size self) = window_arg div precision_arg" .
  from i have l: "sw_limit self = limit_arg" by simp
  have a: "allowed d \<longleftrightarrow> sum_list (map snd retained) + cost \<le> limit_arg"
    using res l
    by (auto simp: SlidingWindow_check_and_consume_def py_truediv_def Let_def
          retained [symmetric] split: if_splits)
  have b: "\<not> allowed d \<longrightarrow>
             new_buckets = retained
           \<and> retry_after d = Some (window_arg div precision_arg + 1)"
    using res trunc
    by (auto simp: SlidingWindow_check_and_consume_def py_truediv_def Let_def
          retained [symmetric] split: if_splits)
  have c: "window_arg div precision_arg + 1 = spec_sliding_window_retry_after self
            \<longleftrightarrow> precision_arg dvd window_arg"
    using i pos by (simp add: spec_sliding_window_retry_after_def ceiling_of_int_div)
  show ?thesis by (rule conjI [OF a conjI [OF b c]])
qed

theorem sliding_window_denied_retry_after_witness:
  "SlidingWindow_init 1 7 2
     = Inr \<lparr>sw_limit = 1, sw_window = 7, sw_precision = 2, sw_bucket_size = 7 / 2\<rparr>
   \<and> SlidingWindow_check_and_consume
        \<lparr>sw_limit = 1, sw_window = 7, sw_precision = 2, sw_bucket_size = 7 / 2\<rparr> [(0, 1)] 1 0
      = Inr (\<lparr>allowed = False, limit = 1, remaining = 0, reset_at = 10,
              retry_after = Some 4\<rparr>, [(0, 1)])
   \<and> Some (4::int) = Some (7 div 2 + 1)
   \<and> \<not> (2::int) dvd 7
   \<and> (7::int) div 2 + 1 \<noteq> spec_sliding_window_retry_after
        \<lparr>sw_limit = 1, sw_window = 7, sw_precision = 2, sw_bucket_size = 7 / 2\<rparr>"
proof -
  let ?sw = "\<lparr>sw_limit = 1, sw_window = 7, sw_precision = 2, sw_bucket_size = 7 / 2\<rparr>"
  let ?d = "\<lparr>allowed = False, limit = 1, remaining = 0, reset_at = 10, retry_after = Some 4\<rparr>"
  have i: "SlidingWindow_init 1 7 2 = Inr ?sw"
    by (simp add: SlidingWindow_init_def py_truediv_def fl_seven_halves)
  have r: "SlidingWindow_check_and_consume ?sw [(0, 1)] 1 0 = Inr (?d, [(0, 1)])"
    by (simp add: SlidingWindow_check_and_consume_def SlidingWindow_retain_def py_truediv_def
        py_int_def Let_def fl_numeral fl_twenty_one_halves)
  have t: "([(0, 1)] :: buckets) = SlidingWindow_retain ?sw (py_int (fl (0 / sw_bucket_size ?sw))) [(0, 1)]"
    by (simp add: SlidingWindow_retain_def py_int_def)
  have p: "(0::int) < 7" "(0::int) < 2" "(7::int) + 2 \<le> 2 ^ 52" "is_double 0"
    by (simp_all add: is_double_def)
  note w = sliding_window_denied_retry_after [OF i p r t]
  have n: "\<not> allowed ?d" by simp
  from w [THEN conjunct2, THEN conjunct1] n
  have "retry_after ?d = Some ((7::int) div 2 + 1)" by blast
  then have a: "Some (4::int) = Some (7 div 2 + 1)" by (simp only: Decision.select_convs)
  have nd: "\<not> (2::int) dvd 7" by simp
  with w [THEN conjunct2, THEN conjunct2]
  have b: "(7::int) div 2 + 1 \<noteq> spec_sliding_window_retry_after ?sw" by blast
  show ?thesis by (rule conjI [OF i conjI [OF r conjI [OF a conjI [OF nd b]]]])
qed













subsection \<open>Policy\<close>

text \<open>
  The default burst of a limit up to \<open>2^49\<close>: the double product \<open>limit * 1.2\<close> lies below
  \<open>6 * limit / 5\<close> by less than the distance to the next double, and it is truncated to
  \<open>6 * limit div 5\<close>.
\<close>

lemma one_point_two_value: "one_point_two = 5404319552844595 / 2 ^ 52"
  unfolding one_point_two_def by (rule fl_twelve_tenths)

lemma default_burst_multiple:
  assumes k: "0 < k" and kb: "k \<le> 2 ^ 50"
  shows "fl (of_int (5 * k) * (5404319552844595 / 2 ^ 52)) = of_int (6 * k)"
proof -
  define p :: real where "p = of_int (5 * k) * (5404319552844595 / 2 ^ 52)"
  have pv: "p = of_int (6 * k) - of_int k / 2 ^ 52" by (simp add: p_def)
  from k have kr: "(1::real) \<le> of_int k" by simp
  have "of_int k / 2 ^ 52 \<le> (of_int k :: real)" using kr by simp
  with pv have lo: "5 * of_int k \<le> p" by simp
  from pv kr have hi: "p \<le> 6 * of_int k" by simp
  from lo kr have p0: "0 < p" by simp
  define b where "b = binade p"
  note bb = binade_bounds [OF p0, folded b_def]
  have b0: "0 \<le> b"
  proof (rule ccontr)
    assume "\<not> 0 \<le> b"
    then have "b + 1 \<le> 0" by simp
    then have "(2::real) powi (b + 1) \<le> 2 powi 0" by (intro power_int_increasing) simp_all
    with bb lo kr show False by simp
  qed
  from kb have "(of_int k :: real) \<le> 2 ^ 50" by (metis of_int_le_iff of_int_numeral of_int_power)
  with hi have "p < 2 powi 53" by simp
  with bb have "(2::real) powi b < 2 powi 53" by simp
  then have b53: "b < 53" by (rule two_powi_less_imp)
  define n where "n = 6 * k * 2 ^ nat (52 - b)"
  have nv: "(of_int n :: real) = of_int (6 * k) * 2 powi (52 - b)"
    using b53 by (simp add: n_def power_int_def)
  have e1: "(2::real) powi (b - 52) = 2 powi b / 2 ^ 52" by (simp add: power_int_diff)
  have e2: "(2::real) powi (52 - b) = 2 ^ 52 / 2 powi b" by (simp add: power_int_diff)
  have bpos: "(0::real) < 2 powi b" by simp
  define d :: real where "d = of_int k / 2 powi b"
  have "p / 2 powi (b - 52) - of_int n = - d"
    unfolding nv pv e1 e2 d_def using bpos by (simp add: field_simps)
  moreover have "d < 1 / 2"
  proof -
    have "(2::real) powi (b + 1) = 2 * 2 powi b" by (simp add: power_int_add)
    with bb lo have "5 * of_int k < 2 * (2::real) powi b" by simp
    with kr have "2 * of_int k < (2::real) powi b" by simp
    then show ?thesis unfolding d_def using bpos by (simp add: field_simps)
  qed
  moreover have "0 \<le> d" unfolding d_def using kr by simp
  ultimately have near: "\<bar>p / 2 powi (b - 52) - of_int n\<bar> < 1 / 2" by linarith
  from bb p0 have a1: "2 powi b \<le> \<bar>p\<bar>" and a2: "\<bar>p\<bar> < 2 powi (b + 1)" by simp_all
  from b0 have a3: "- 1022 \<le> b" by simp
  have "fl p = of_int n * 2 powi (b - 52)" by (rule fl_near [OF a1 a2 a3 near])
  also have "\<dots> = of_int (6 * k)" unfolding nv e1 e2 using bpos by simp
  finally show ?thesis by (simp add: p_def)
qed

lemma default_burst_value:
  assumes l: "0 < l" and lb: "l \<le> 2 ^ 49"
  shows "py_int (fl (of_int l * one_point_two)) = l * 6 div 5"
proof -
  define N where "N = l * 6 div 5"
  define p :: real where "p = of_int l * (5404319552844595 / 2 ^ 52)"
  have N0: "0 \<le> N" using l by (simp add: N_def)
  have dm: "l * 6 = N * 5 + l * 6 mod 5" by (simp add: N_def)
  have "fl p = of_int N \<or> (of_int N \<le> fl p \<and> fl p < of_int N + 1)"
  proof (cases "l * 6 mod 5 = 0")
    case True
    with dm have "l * 6 = N * 5" by simp
    then have "5 dvd l" by presburger
    then obtain k where lk: "l = 5 * k" ..
    with l have k: "0 < k" by simp
    from lk lb have kb: "k \<le> 2 ^ 50" by simp
    from lk have "N = 6 * k" by (simp add: N_def)
    with default_burst_multiple [OF k kb] lk show ?thesis by (simp add: p_def)
  next
    case False
    moreover have "0 \<le> l * 6 mod 5" "l * 6 mod 5 < 5" by simp_all
    ultimately have r: "1 \<le> l * 6 mod 5" "l * 6 mod 5 \<le> 4" by linarith+
    from dm r have i1: "N * 5 + 1 \<le> l * 6" and i2: "l * 6 \<le> N * 5 + 4" by linarith+
    from i1 have r1: "of_int N * 5 + 1 \<le> (of_int l :: real) * 6"
      by (metis (mono_tags, opaque_lifting) of_int_1 of_int_add of_int_le_iff of_int_mult of_int_numeral)
    from i2 have r2: "(of_int l :: real) * 6 \<le> of_int N * 5 + 4"
      by (metis (mono_tags, opaque_lifting) of_int_add of_int_le_iff of_int_mult of_int_numeral)
    from lb have lr: "(of_int l :: real) \<le> 2 ^ 49" by (metis of_int_le_iff of_int_numeral of_int_power)
    from l have l0: "(0::real) < of_int l" by simp
    have pv: "p * 5 = of_int l * 6 - of_int l / 2 ^ 52" by (simp add: p_def)
    have "of_int l / 2 ^ 52 \<le> (1::real)" using lr by simp
    with pv r1 have lo: "of_int N \<le> p" by simp
    from pv r2 l0 have "p * 5 \<le> of_int N * 5 + 4" by simp
    then have hi: "p \<le> of_int (8 * N + 7) * 2 powi (- 3)" by (simp add: power_int_minus)
    from i1 lb have "N * 5 \<le> 6 * 2 ^ 49" by simp
    then have Nb: "N < 2 ^ 50" by simp
    with N0 have m: "\<bar>8 * N + 7\<bar> < 2 ^ 53" by simp
    have "fl (of_int (8 * N + 7) * 2 powi (- 3)) = of_int (8 * N + 7) * 2 powi (- 3)"
      by (rule fl_exact [OF refl m]) simp
    with fl_mono [OF hi] have "fl p \<le> of_int (8 * N + 7) * 2 powi (- 3)" by simp
    then have "fl p < of_int N + 1" by (simp add: power_int_minus)
    moreover from N0 Nb have "\<bar>N\<bar> \<le> 2 ^ 53" by simp
    with lo have "of_int N \<le> fl p" by (rule fl_ge_int)
    ultimately show ?thesis by simp
  qed
  then have "of_int N \<le> fl p \<and> fl p < of_int N + 1" by auto
  then have "\<lfloor>fl p\<rfloor> = N" by (simp add: floor_eq_iff)
  moreover have "0 \<le> fl p" using l by (intro fl_nonneg) (simp add: p_def)
  ultimately show ?thesis
    unfolding one_point_two_def fl_twelve_tenths by (simp add: py_int_nonneg p_def N_def)
qed

lemma default_burst_ordinary:
  assumes l: "0 < l" and lb: "l \<le> 2 ^ 49"
  shows "default_burst l = Inr (l * 6 div 5)"
proof -
  from l lb have "\<bar>l\<bar> \<le> 2 ^ 53" by simp
  then have c: "fl (of_int l) = of_int l" by (rule fl_of_int)
  from lb have "(of_int l :: real) \<le> 2 ^ 49" by (metis of_int_le_iff of_int_numeral of_int_power)
  with l have f: "float_of_int l = Inr (of_int l)" by (simp add: float_of_int_def c)
  note v = default_burst_value [OF l lb]
  define p where "p = fl (of_int l * one_point_two)"
  have "0 \<le> one_point_two" unfolding one_point_two_def by (rule fl_nonneg) simp
  then have "0 \<le> of_int l * one_point_two" using l by simp
  then have p0: "0 \<le> p" unfolding p_def by (rule fl_nonneg)
  with v have fl: "\<lfloor>p\<rfloor> = l * 6 div 5" by (simp add: py_int_nonneg p_def)
  have "l * 6 div 5 \<le> l * 6" using l by linarith
  with lb have "l * 6 div 5 < 2 ^ 52" by simp
  then have "\<lfloor>p\<rfloor> + 1 \<le> 2 ^ 52" unfolding fl by simp
  then have "(of_int (\<lfloor>p\<rfloor> + 1) :: real) \<le> 2 ^ 52"
    by (metis of_int_le_iff of_int_numeral of_int_power)
  moreover have "p < of_int (\<lfloor>p\<rfloor> + 1)" by simp
  ultimately have "p < 2 ^ 1024" by simp
  with p0 have "\<not> 2 ^ 1024 \<le> \<bar>p\<bar>" by simp
  with v show ?thesis by (simp add: default_burst_def f p_def [symmetric] Let_def)
qed

lemma floor_six_fifths: "\<lfloor>(of_int l :: real) * 6 / 5\<rfloor> = l * 6 div 5"
proof -
  have "(of_int l :: real) * 6 / 5 = of_int (l * 6) / of_int 5" by simp
  then show ?thesis by (simp only: floor_divide_of_int_eq)
qed

lemma spec_default_burst_value:
  "spec_default_burst l = (if 5 dvd l then l * 6 div 5 else l * 6 div 5 + 1)"
proof -
  have "(of_int l :: real) * (12 / 10) = of_int (l * 6) / of_int 5" by simp
  then have "spec_default_burst l = \<lceil>(of_int (l * 6) :: real) / of_int 5\<rceil>"
    by (simp only: spec_default_burst_def)
  also have "\<dots> = - (- (l * 6) div 5)" by (rule ceiling_divide_eq_div)
  also have "\<dots> = (if l * 6 mod 5 = 0 then l * 6 div 5 else l * 6 div 5 + 1)"
    by (simp add: zdiv_zminus1_eq_if)
  also have "l * 6 mod 5 = 0 \<longleftrightarrow> 5 dvd l" by presburger
  finally show ?thesis .
qed

text \<open>
  Claim C4, as the specification states it, fails on the code, at the claim's own example:
  \<open>Policy("api", 3, 60)\<close> is constructed with \<open>burst = 3\<close>, where \<open>ceil(3 * 1.2)\<close> is 4.
\<close>

theorem policy_default_burst_counterexample:
  "Policy_post_init (Policy_fields ''api'' 3 60)
     = Inr ((Policy_fields ''api'' 3 60)\<lparr>policy_burst := Some 3\<rparr>)
   \<and> spec_default_burst 3 = 4"
proof -
  have "default_burst 3 = Inr (3 * 6 div 5)" by (rule default_burst_ordinary) simp_all
  then show ?thesis
    by (simp add: Policy_post_init_def Policy_fields_def spec_default_burst_def)
qed

text \<open>
  Claim C4, amended.  For every \<open>limit\<close> with \<open>0 < limit \<le> 2^49\<close> (and a positive \<open>window\<close> and
  \<open>cost\<close>, so that construction succeeds), constructing a Policy without an explicit burst
  sets \<open>burst = 6 * limit div 5\<close>, the floor of \<open>limit * 1.2\<close>: \<open>int()\<close> truncates.  This is
  \<open>ceil(limit * 1.2)\<close> exactly when 5 divides \<open>limit\<close>.
\<close>

theorem policy_default_burst:
  assumes none: "policy_burst given = None"
    and limit: "0 < policy_limit given" "policy_limit given \<le> 2 ^ 49"
    and window: "0 < policy_window given" and cost: "0 < policy_cost given"
  shows "Policy_post_init given
           = Inr (given\<lparr>policy_burst := Some (policy_limit given * 6 div 5)\<rparr>)
       \<and> policy_limit given * 6 div 5 = \<lfloor>of_int (policy_limit given) * (12 / 10 :: real)\<rfloor>
       \<and> (policy_limit given * 6 div 5 = spec_default_burst (policy_limit given)
            \<longleftrightarrow> 5 dvd policy_limit given)"
proof -
  note b = default_burst_ordinary [OF limit]
  have g: "policy_limit given \<le> policy_limit given * 6 div 5" using limit(1) by linarith
  have a: "Policy_post_init given
           = Inr (given\<lparr>policy_burst := Some (policy_limit given * 6 div 5)\<rparr>)"
    using none limit(1) window cost g by (simp add: Policy_post_init_def b)
  have f: "policy_limit given * 6 div 5 = \<lfloor>of_int (policy_limit given) * (12 / 10 :: real)\<rfloor>"
    using floor_six_fifths [of "policy_limit given"] by simp
  have c: "policy_limit given * 6 div 5 = spec_default_burst (policy_limit given)
            \<longleftrightarrow> 5 dvd policy_limit given"
    by (simp add: spec_default_burst_value)
  show ?thesis by (rule conjI [OF a conjI [OF f c]])
qed

theorem policy_default_burst_witness:
  "Policy_post_init (Policy_fields ''api'' 10 60)
     = Inr ((Policy_fields ''api'' 10 60)\<lparr>policy_burst := Some 12\<rparr>)
   \<and> spec_default_burst 10 = 12"
proof -
  let ?p = "Policy_fields ''api'' 10 60"
  have h: "policy_burst ?p = None" "0 < policy_limit ?p" "policy_limit ?p \<le> 2 ^ 49"
    "0 < policy_window ?p" "0 < policy_cost ?p"
    by (simp_all add: Policy_fields_def)
  have l: "policy_limit ?p = 10" by (simp add: Policy_fields_def)
  note w = policy_default_burst [OF h, unfolded l]
  have d: "(5::int) dvd 10" by simp
  from w [THEN conjunct1] have a: "Policy_post_init ?p = Inr (?p\<lparr>policy_burst := Some 12\<rparr>)"
    by simp
  from w [THEN conjunct2, THEN conjunct2] d have "(10::int) * 6 div 5 = spec_default_burst 10"
    by (rule iffD2)
  then have b: "spec_default_burst 10 = 12" by simp
  show ?thesis by (rule conjI [OF a b])
qed

text \<open>
  A default burst is never below a positive limit; it is defined for every limit up to
  \<open>2^1023\<close> in magnitude, and from \<open>2^1024\<close> on the conversion of the limit overflows.
\<close>

lemma default_burst_ge:
  assumes l: "0 < l" and b: "default_burst l = Inr b"
  shows "l \<le> b"
proof -
  define X :: real where "X = of_int l"
  define L where "L = fl X"
  define Q where "Q = L * one_point_two"
  define P where "P = fl Q"
  from l have X1: "1 \<le> X" by (simp add: X_def)
  from fl_mono [OF X1] have L1: "1 \<le> L" by (simp add: L_def)
  from fl_rel_error [OF X1] have "X - X / 2 ^ 53 \<le> L" by (simp add: L_def)
  with X1 have LX: "X * (15 / 16) \<le> L" by simp
  have c: "19 / 16 \<le> one_point_two" by (simp add: one_point_two_value)
  from L1 have L0: "0 \<le> L" by simp
  from mult_left_mono [OF c L0] have Lc: "L * (19 / 16) \<le> Q" by (simp add: Q_def)
  with L1 have Q1: "1 \<le> Q" by simp
  from fl_rel_error [OF Q1] have "Q - Q / 2 ^ 53 \<le> P" by (simp add: P_def)
  with Q1 have "Q * (15 / 16) \<le> P" by simp
  with Lc have "L * (19 / 16) * (15 / 16) \<le> P" by simp
  with LX X1 have XP: "X \<le> P" by simp
  with X1 have P0: "0 \<le> P" by simp
  from b have "b = py_int P"
    by (auto simp: default_burst_def float_of_int_def Let_def P_def Q_def L_def X_def
          split: if_splits)
  with P0 have "b = \<lfloor>P\<rfloor>" by (simp add: py_int_nonneg)
  with XP show ?thesis by (simp add: X_def le_floor_iff)
qed

lemma default_burst_defined:
  assumes "\<bar>l\<bar> \<le> 2 ^ 1023"
  shows "\<exists>b. default_burst l = Inr b"
proof -
  define A :: real where "A = 2 powi 1023"
  define X :: real where "X = of_int l"
  define L where "L = fl X"
  define P where "P = fl (L * one_point_two)"
  have A0: "0 < A" by (simp add: A_def)
  have flA: "fl A = A" unfolding A_def by (rule fl_two_powi) simp
  from assms have "\<bar>X\<bar> \<le> 2 ^ 1023" unfolding X_def
    by (metis of_int_abs of_int_le_iff of_int_numeral of_int_power)
  then have XA: "- A \<le> X" "X \<le> A" by (simp_all add: A_def)
  from fl_mono [OF XA(2)] flA have LA: "L \<le> A" by (simp add: L_def)
  from fl_mono [OF XA(1)] flA have AL: "- A \<le> L" by (simp add: L_def fl_minus)
  have c0: "0 \<le> one_point_two" and c1: "one_point_two \<le> 3 / 2"
    by (simp_all add: one_point_two_value)
  define B :: real where "B = 3 * 2 powi 1022"
  have AB: "A * (3 / 2) = B" by (simp add: A_def B_def)
  have flB: "fl B = B" unfolding B_def by (rule fl_exact [of _ 3 1022]) simp_all
  have "L * one_point_two \<le> A * (3 / 2)"
  proof (cases "0 \<le> L")
    case True
    then show ?thesis using LA c0 c1 A0 by (intro mult_mono) simp_all
  next
    case False
    then have "L * one_point_two \<le> 0" using c0 by (simp add: mult_le_0_iff)
    with A0 show ?thesis by simp
  qed
  then have u: "L * one_point_two \<le> B" by (simp only: AB)
  have "- (A * (3 / 2)) \<le> L * one_point_two"
  proof (cases "0 \<le> L")
    case True
    then have "0 \<le> L * one_point_two" using c0 by simp
    with A0 show ?thesis by simp
  next
    case False
    then have "(- L) * one_point_two \<le> A * (3 / 2)" using AL c0 c1 A0 by (intro mult_mono) simp_all
    then show ?thesis by simp
  qed
  then have d: "- B \<le> L * one_point_two" by (simp only: AB)
  from fl_mono [OF u] flB have PB: "P \<le> B" by (simp add: P_def)
  from fl_mono [OF d] flB have BP: "- B \<le> P" by (simp add: P_def fl_minus)
  have Bl: "B < 2 ^ 1024" by (simp add: B_def)
  have Al: "A < 2 ^ 1024" by (simp add: A_def)
  from LA AL Al have nL: "\<not> 2 ^ 1024 \<le> \<bar>L\<bar>" by simp
  from PB BP Bl have nP: "\<not> 2 ^ 1024 \<le> \<bar>P\<bar>" by simp
  from nL nP show ?thesis
    by (simp add: default_burst_def float_of_int_def Let_def P_def [symmetric] L_def [symmetric]
          X_def [symmetric])
qed

lemma default_burst_overflow:
  assumes "2 ^ 1024 \<le> l"
  shows "default_burst l = Inl OverflowError"
proof -
  from assms have "(2::real) ^ 1024 \<le> of_int l"
    by (metis of_int_le_iff of_int_numeral of_int_power)
  then have "(2::real) powi 1024 \<le> of_int l" by simp
  from fl_mono [OF this] have "fl (2 powi 1024) \<le> fl (of_int l)" .
  moreover have "fl (2 powi 1024) = 2 powi 1024" by (rule fl_two_powi) simp
  ultimately have "2 powi 1024 \<le> fl (of_int l)" by (simp only:)
  then have "2 ^ 1024 \<le> \<bar>fl (of_int l)\<bar>" by simp
  then show ?thesis by (simp add: default_burst_def float_of_int_def Let_def)
qed

text \<open>
  Claim C6, as the specification states it, fails on the code: \<open>Policy("api", 2**1024, 60)\<close>
  has a positive limit, window and cost, no explicit burst and a known algorithm, and its
  construction raises \<open>OverflowError\<close> in \<open>int(self.limit * 1.2)\<close>.
\<close>

theorem policy_overflow_counterexample:
  "Policy_post_init (Policy_fields ''api'' (2 ^ 1024) 60) = Inl OverflowError
   \<and> \<not> policy_limit (Policy_fields ''api'' (2 ^ 1024) 60) \<le> 0
   \<and> \<not> policy_window (Policy_fields ''api'' (2 ^ 1024) 60) \<le> 0
   \<and> \<not> policy_cost (Policy_fields ''api'' (2 ^ 1024) 60) \<le> 0
   \<and> policy_burst (Policy_fields ''api'' (2 ^ 1024) 60) = None
   \<and> policy_algorithm (Policy_fields ''api'' (2 ^ 1024) 60)
       \<in> {TOKEN_BUCKET, FIXED_WINDOW, SLIDING_WINDOW, LEAKY_BUCKET}"
proof -
  have "default_burst (2 ^ 1024) = Inl OverflowError" by (rule default_burst_overflow) simp
  then show ?thesis by (simp add: Policy_post_init_def Policy_fields_def)
qed

text \<open>
  Claim C6, amended.  Constructing a Policy raises if and only if \<open>limit \<le> 0\<close>, or
  \<open>window \<le> 0\<close>, or \<open>cost \<le> 0\<close>, or an explicitly supplied burst is below \<open>limit\<close>, or no burst
  is supplied and \<open>limit * 1.2\<close> is beyond the doubles, which no limit up to \<open>2^1023\<close> in
  magnitude is and every limit from \<open>2^1024\<close> on is.  The algorithm is never looked at.  A
  policy that is constructed has a positive limit, window and cost and a burst that is set
  and not below the limit, differs from the given fields in the burst at most, and passes
  \<open>__post_init__\<close> again unchanged: no check of the constructor can fail on it afterwards.
\<close>

theorem policy_construction_fails_iff:
  "((\<exists>e. Policy_post_init given = Inl e) \<longleftrightarrow>
       policy_limit given \<le> 0 \<or> policy_window given \<le> 0 \<or> policy_cost given \<le> 0
     \<or> (\<exists>burst. policy_burst given = Some burst \<and> burst < policy_limit given)
     \<or> (policy_burst given = None \<and> (\<exists>e. default_burst (policy_limit given) = Inl e)))
   \<and> (\<bar>policy_limit given\<bar> \<le> 2 ^ 1023 \<longrightarrow> (\<exists>b. default_burst (policy_limit given) = Inr b))
   \<and> (2 ^ 1024 \<le> policy_limit given
        \<longrightarrow> default_burst (policy_limit given) = Inl OverflowError)
   \<and> (\<forall>p. Policy_post_init given = Inr p \<longrightarrow>
          0 < policy_limit p \<and> 0 < policy_window p \<and> 0 < policy_cost p
        \<and> (\<exists>burst. policy_burst p = Some burst \<and> policy_limit p \<le> burst)
        \<and> p = given\<lparr>policy_burst := policy_burst p\<rparr>
        \<and> Policy_post_init p = Inr p)"
proof -
  have ge: "\<And>b. default_burst (policy_limit given) = Inr b \<Longrightarrow> b < policy_limit given
              \<Longrightarrow> policy_limit given \<le> 0"
  proof (rule ccontr)
    fix b
    assume b: "default_burst (policy_limit given) = Inr b" and lt: "b < policy_limit given"
      and "\<not> policy_limit given \<le> 0"
    then have "0 < policy_limit given" by simp
    from default_burst_ge [OF this b] lt show False by simp
  qed
  have a: "(\<exists>e. Policy_post_init given = Inl e) \<longleftrightarrow>
       policy_limit given \<le> 0 \<or> policy_window given \<le> 0 \<or> policy_cost given \<le> 0
     \<or> (\<exists>burst. policy_burst given = Some burst \<and> burst < policy_limit given)
     \<or> (policy_burst given = None \<and> (\<exists>e. default_burst (policy_limit given) = Inl e))"
  proof (cases "policy_burst given")
    case (Some burst)
    then show ?thesis by (simp add: Policy_post_init_def)
  next
    case None
    show ?thesis
    proof (cases "default_burst (policy_limit given)")
      case (Inl e)
      with None show ?thesis by (simp add: Policy_post_init_def)
    next
      case (Inr b)
      with None ge [OF Inr] show ?thesis by (auto simp: Policy_post_init_def)
    qed
  qed
  have b: "\<bar>policy_limit given\<bar> \<le> 2 ^ 1023 \<longrightarrow> (\<exists>b. default_burst (policy_limit given) = Inr b)"
    using default_burst_defined [of "policy_limit given"] by blast
  have c: "2 ^ 1024 \<le> policy_limit given
        \<longrightarrow> default_burst (policy_limit given) = Inl OverflowError"
    using default_burst_overflow [of "policy_limit given"] by blast
  have d: "\<forall>p. Policy_post_init given = Inr p \<longrightarrow>
          0 < policy_limit p \<and> 0 < policy_window p \<and> 0 < policy_cost p
        \<and> (\<exists>burst. policy_burst p = Some burst \<and> policy_limit p \<le> burst)
        \<and> p = given\<lparr>policy_burst := policy_burst p\<rparr>
        \<and> Policy_post_init p = Inr p"
  proof (intro allI impI)
    fix p
    assume r: "Policy_post_init given = Inr p"
    then have f: "0 < policy_limit p \<and> 0 < policy_window p \<and> 0 < policy_cost p
        \<and> (\<exists>burst. policy_burst p = Some burst \<and> policy_limit p \<le> burst)
        \<and> p = given\<lparr>policy_burst := policy_burst p\<rparr>"
      by (auto simp: Policy_post_init_def split: option.splits sum.splits if_splits)
    then have "Policy_post_init p = Inr p" by (auto simp: Policy_post_init_def)
    with f show "0 < policy_limit p \<and> 0 < policy_window p \<and> 0 < policy_cost p
        \<and> (\<exists>burst. policy_burst p = Some burst \<and> policy_limit p \<le> burst)
        \<and> p = given\<lparr>policy_burst := policy_burst p\<rparr>
        \<and> Policy_post_init p = Inr p" by simp
  qed
  show ?thesis by (rule conjI [OF a conjI [OF b conjI [OF c d]]])
qed

theorem policy_construction_fails_iff_witness:
  "Policy_post_init (Policy_fields ''api'' 10 60)
     = Inr ((Policy_fields ''api'' 10 60)\<lparr>policy_burst := Some 12\<rparr>)
   \<and> default_burst 10 = Inr 12
   \<and> Policy_post_init ((Policy_fields ''api'' 10 60)\<lparr>policy_burst := Some 12\<rparr>)
     = Inr ((Policy_fields ''api'' 10 60)\<lparr>policy_burst := Some 12\<rparr>)"
proof -
  let ?g = "Policy_fields ''api'' 10 60"
  let ?p = "?g\<lparr>policy_burst := Some 12\<rparr>"
  have db: "default_burst 10 = Inr (10 * 6 div 5)" by (rule default_burst_ordinary) simp_all
  then have db': "default_burst 10 = Inr 12" by simp
  then have r: "Policy_post_init ?g = Inr ?p"
    by (simp add: Policy_post_init_def Policy_fields_def)
  note w = policy_construction_fails_iff [of ?g]
  from w [THEN conjunct2, THEN conjunct2, THEN conjunct2] r
  have "0 < policy_limit ?p \<and> 0 < policy_window ?p \<and> 0 < policy_cost ?p
        \<and> (\<exists>burst. policy_burst ?p = Some burst \<and> policy_limit ?p \<le> burst)
        \<and> ?p = ?g\<lparr>policy_burst := policy_burst ?p\<rparr>
        \<and> Policy_post_init ?p = Inr ?p" by blast
  then have again: "Policy_post_init ?p = Inr ?p" by blast
  show ?thesis by (rule conjI [OF r conjI [OF db' again]])
qed

subsection \<open>In-memory store\<close>

text \<open>
  What \<open>increment\<close> does to the value: a key that is absent, expired or not a number counts
  as 0, the stored value becomes the old value plus \<open>delta\<close>, and no other key changes.
\<close>

lemma increment_value:
  assumes "InMemoryStore_increment self key delta ttl now = (v, result)"
    and "cleaned = InMemoryStore_cleanup_expired self key now"
    and "old = (case store_data cleaned key of
                  Some found \<Rightarrow> if is_number found then found else PyInt 0
                | None \<Rightarrow> PyInt 0)"
  shows "store_data result key = Some (py_add_int old delta)"
    and "v = py_int_of (py_add_int old delta)"
    and "\<And>other. other \<noteq> key \<Longrightarrow> store_data result other = store_data self other
           \<and> store_expiry result other = store_expiry self other"
  using assms
  by (auto simp: InMemoryStore_increment_def InMemoryStore_cleanup_expired_def Let_def
      split: option.splits if_splits)

text \<open>
  What \<open>increment\<close> does to the deadline of the key: a deadline that has not passed is kept;
  otherwise a deadline is set whenever a \<open>ttl\<close> is given.  The test of the source is
  \<open>key not in self._expiry\<close>: it asks whether the key has a deadline, not whether the key
  has a value.
\<close>

lemma increment_deadline:
  assumes "InMemoryStore_increment self key delta ttl now = (v, result)"
  shows "store_expiry result key =
     (case store_expiry self key of
        Some deadline \<Rightarrow>
          if now < deadline then Some deadline
          else (case ttl of Some seconds \<Rightarrow> Some (now + of_int seconds) | None \<Rightarrow> None)
      | None \<Rightarrow> (case ttl of Some seconds \<Rightarrow> Some (now + of_int seconds) | None \<Rightarrow> None))"
  using assms
  by (auto simp: InMemoryStore_increment_def InMemoryStore_cleanup_expired_def Let_def
      split: option.splits if_splits)

text \<open>
  Claim C3 on the code.  The docstring of \<open>increment\<close> says that the \<open>ttl\<close> is ``only set if
  key doesn't exist''.  A key written by \<open>set("hits", 5)\<close> with no \<open>ttl\<close> exists and has no
  deadline; \<open>increment("hits", 1, ttl=10)\<close> at time 100 returns 6 and gives the existing key
  the deadline 110.
\<close>

theorem increment_existing_key_gets_deadline:
  "(let s0 = InMemoryStore_set InMemoryStore_init ''hits'' (PyInt 5) None 0;
        (v, s1) = InMemoryStore_increment s0 ''hits'' 1 (Some 10) 100
    in store_data s0 ''hits'' = Some (PyInt 5) \<and> store_expiry s0 ''hits'' = None
     \<and> v = 6 \<and> store_data s1 ''hits'' = Some (PyInt 6)
     \<and> store_expiry s1 ''hits'' = Some 110)"
  by (simp add: InMemoryStore_set_def InMemoryStore_init_def InMemoryStore_increment_def
      InMemoryStore_cleanup_expired_def Let_def)

subsection \<open>Penalty engine\<close>

lemma py_int_less_iff: "0 \<le> x \<Longrightarrow> py_int x < u \<longleftrightarrow> x < of_int u"
  by (simp add: py_int_nonneg floor_less_iff)

lemma get_penalty_until:
  "penalty_until (fst (PenaltyManager_get_penalty self identifier now))
     = (case stored_penalty self identifier now of
          None \<Rightarrow> None
        | Some penalty \<Rightarrow> penalty_until penalty)"
  by (simp add: PenaltyManager_get_penalty_def stored_penalty_def Penalty_new_def Let_def
      split_def split: option.splits)

lemma multiplier_general:
  assumes "0 \<le> now"
  shows "fst (PenaltyManager_get_rate_limit_multiplier self identifier now)
          = (if spec_penalty_active (stored_penalty self identifier now) now
             then multiplier (pm_config self) else 1)"
proof -
  obtain penalty self' where g: "PenaltyManager_get_penalty self identifier now = (penalty, self')"
    by (cases "PenaltyManager_get_penalty self identifier now")
  have c: "pm_config self' = pm_config self"
    using g by (auto simp: PenaltyManager_get_penalty_def Let_def split_def
        split: option.splits if_splits)
  have u: "penalty_until penalty = (case stored_penalty self identifier now of
          None \<Rightarrow> None | Some p \<Rightarrow> penalty_until p)"
    using get_penalty_until [of self "identifier" now] g by simp
  have a: "Penalty_is_active penalty now
            = spec_penalty_active (stored_penalty self identifier now) now"
    using assms u
    by (simp add: Penalty_is_active_def spec_penalty_active_def py_int_less_iff
        split: option.splits)
  show ?thesis
    using g c a by (simp add: PenaltyManager_get_rate_limit_multiplier_def)
qed

text \<open>
  The manager after nine and after ten violations of severity 1 recorded at time 0, with
  the configuration of the scenario and an empty store to start with.
\<close>

lemma nine_violations:
  "record_violations 9
      \<lparr>pm_store = InMemoryStore_init,
       pm_config = \<lparr>threshold = 10, duration = 3600, multiplier = 1/2, decay_rate = 1\<rparr>\<rparr>
      identifier 1 0 =
     \<lparr>pm_store = \<lparr>store_data = [PenaltyManager_get_penalty_key identifier \<mapsto>
                        \<lparr>abuse_score = 9, penalty_until = None, violations = 9,
                         last_violation = Some 0\<rparr>],
                   store_expiry = [PenaltyManager_get_penalty_key identifier \<mapsto> 604800]\<rparr>,
      pm_config = \<lparr>threshold = 10, duration = 3600, multiplier = 1/2, decay_rate = 1\<rparr>\<rparr>"
  by (simp add: eval_nat_numeral InMemoryStore_init_def
      PenaltyManager_record_violation_def PenaltyManager_get_penalty_def
      PenaltyManager_save_penalty_def InMemoryStore_get_def InMemoryStore_set_def
      InMemoryStore_cleanup_expired_def Penalty_is_active_def Penalty_new_def py_int_def
      Let_def split_def)

lemma ten_violations:
  "record_violations 10
      \<lparr>pm_store = InMemoryStore_init,
       pm_config = \<lparr>threshold = 10, duration = 3600, multiplier = 1/2, decay_rate = 1\<rparr>\<rparr>
      identifier 1 0 =
     \<lparr>pm_store = \<lparr>store_data = [PenaltyManager_get_penalty_key identifier \<mapsto>
                        \<lparr>abuse_score = 10, penalty_until = Some 3600, violations = 10,
                         last_violation = Some 0\<rparr>],
                   store_expiry = [PenaltyManager_get_penalty_key identifier \<mapsto> 604800]\<rparr>,
      pm_config = \<lparr>threshold = 10, duration = 3600, multiplier = 1/2, decay_rate = 1\<rparr>\<rparr>"
  by (simp add: eval_nat_numeral InMemoryStore_init_def
      PenaltyManager_record_violation_def PenaltyManager_get_penalty_def
      PenaltyManager_save_penalty_def InMemoryStore_get_def InMemoryStore_set_def
      InMemoryStore_cleanup_expired_def Penalty_is_active_def Penalty_new_def py_int_def
      Let_def split_def)

lemma stored_after_ten:
  "stored_penalty
     \<lparr>pm_store = \<lparr>store_data = [PenaltyManager_get_penalty_key identifier \<mapsto> p],
                   store_expiry = [PenaltyManager_get_penalty_key identifier \<mapsto> 604800]\<rparr>,
      pm_config = c\<rparr> identifier t
   = (if 604800 \<le> t then None else Some p)"
  by (simp add: stored_penalty_def InMemoryStore_get_def InMemoryStore_cleanup_expired_def Let_def)

text \<open>
  Claim C8.  With threshold 10, duration 3600, multiplier 0.5, decay rate 1 and an empty
  store, nine violations of severity 1 at time 0 leave no penalty and the tenth engages it
  with \<open>penalty_until = 3600\<close>; from then on \<open>get_rate_limit_multiplier\<close> returns 0.5 at
  every time in \<open>[0, 3600)\<close> and 1 at every time from 3600 on.  For every manager and every
  time \<open>now \<ge> 0\<close>, \<open>get_rate_limit_multiplier\<close> returns the configured multiplier when the
  penalty that the store holds is active (\<open>penalty_until\<close> is set and lies after \<open>now\<close>) and 1
  otherwise.
\<close>

theorem penalty_multiplier:
  assumes now: "0 \<le> now"
    and config: "config = \<lparr>threshold = 10, duration = 3600, multiplier = 1/2, decay_rate = 1\<rparr>"
    and nine: "nine = record_violations 9 \<lparr>pm_store = InMemoryStore_init, pm_config = config\<rparr>
                         identifier 1 0"
    and ten: "ten = record_violations 10 \<lparr>pm_store = InMemoryStore_init, pm_config = config\<rparr>
                         identifier 1 0"
  shows "stored_penalty nine identifier 0
           = Some \<lparr>abuse_score = 9, penalty_until = None, violations = 9,
                   last_violation = Some 0\<rparr>
       \<and> stored_penalty ten identifier 0
           = Some \<lparr>abuse_score = 10, penalty_until = Some 3600, violations = 10,
                   last_violation = Some 0\<rparr>
       \<and> (\<forall>t. 0 \<le> t \<and> t < 3600 \<longrightarrow>
              fst (PenaltyManager_get_rate_limit_multiplier ten identifier t) = 1/2)
       \<and> (\<forall>t. 3600 \<le> t \<longrightarrow>
              fst (PenaltyManager_get_rate_limit_multiplier ten identifier t) = 1)
       \<and> fst (PenaltyManager_get_rate_limit_multiplier self identifier now)
           = (if spec_penalty_active (stored_penalty self identifier now) now
              then multiplier (pm_config self) else 1)"
proof -
  have n: "stored_penalty nine identifier 0
           = Some \<lparr>abuse_score = 9, penalty_until = None, violations = 9,
                   last_violation = Some 0\<rparr>"
    unfolding nine config nine_violations stored_after_ten by simp
  have t: "stored_penalty ten identifier 0
           = Some \<lparr>abuse_score = 10, penalty_until = Some 3600, violations = 10,
                   last_violation = Some 0\<rparr>"
    unfolding ten config ten_violations stored_after_ten by simp
  have during: "\<forall>t. 0 \<le> t \<and> t < 3600 \<longrightarrow>
              fst (PenaltyManager_get_rate_limit_multiplier ten identifier t) = 1/2"
  proof (intro allI impI)
    fix t :: real
    assume b: "0 \<le> t \<and> t < 3600"
    then have "0 \<le> t" by simp
    from multiplier_general [OF this, of ten "identifier"] b
    show "fst (PenaltyManager_get_rate_limit_multiplier ten identifier t) = 1/2"
      unfolding ten config ten_violations stored_after_ten
      by (simp add: spec_penalty_active_def)
  qed
  have after: "\<forall>t. 3600 \<le> t \<longrightarrow>
              fst (PenaltyManager_get_rate_limit_multiplier ten identifier t) = 1"
  proof (intro allI impI)
    fix t :: real
    assume b: "3600 \<le> t"
    then have "0 \<le> t" by simp
    from multiplier_general [OF this, of ten "identifier"] b
    show "fst (PenaltyManager_get_rate_limit_multiplier ten identifier t) = 1"
      unfolding ten config ten_violations stored_after_ten
      by (simp add: spec_penalty_active_def)
  qed
  note general = multiplier_general [OF now, of self "identifier"]
  show ?thesis
    by (rule conjI [OF n conjI [OF t conjI [OF during conjI [OF after general]]]])
qed

theorem penalty_multiplier_witness:
  "stored_penalty
     (record_violations 10
        \<lparr>pm_store = InMemoryStore_init,
         pm_config = \<lparr>threshold = 10, duration = 3600, multiplier = 1/2, decay_rate = 1\<rparr>\<rparr>
        ''client'' 1 0) ''client'' 0
     = Some \<lparr>abuse_score = 10, penalty_until = Some 3600, violations = 10,
             last_violation = Some 0\<rparr>
   \<and> fst (PenaltyManager_get_rate_limit_multiplier
        (record_violations 10
           \<lparr>pm_store = InMemoryStore_init,
            pm_config = \<lparr>threshold = 10, duration = 3600, multiplier = 1/2, decay_rate = 1\<rparr>\<rparr>
           ''client'' 1 0) ''client'' 3599) = 1/2
   \<and> fst (PenaltyManager_get_rate_limit_multiplier
        (record_violations 10
           \<lparr>pm_store = InMemoryStore_init,
            pm_config = \<lparr>threshold = 10, duration = 3600, multiplier = 1/2, decay_rate = 1\<rparr>\<rparr>
           ''client'' 1 0) ''client'' 3600) = 1"
proof -
  define config where
    "config = \<lparr>threshold = 10, duration = 3600, multiplier = 1/2, decay_rate = (1::real)\<rparr>"
  define nine where
    "nine = record_violations 9 \<lparr>pm_store = InMemoryStore_init, pm_config = config\<rparr>
              ''client'' 1 0"
  define ten where
    "ten = record_violations 10 \<lparr>pm_store = InMemoryStore_init, pm_config = config\<rparr>
              ''client'' 1 0"
  have h: "(0::real) \<le> 3599" by simp
  note w = penalty_multiplier [OF h config_def nine_def ten_def, of ten]
  from w have s: "stored_penalty ten ''client'' 0
           = Some \<lparr>abuse_score = 10, penalty_until = Some 3600, violations = 10,
                   last_violation = Some 0\<rparr>"
    by (elim conjE)
  from w have d: "\<forall>t. 0 \<le> t \<and> t < 3600 \<longrightarrow>
              fst (PenaltyManager_get_rate_limit_multiplier ten ''client'' t) = 1/2"
    by (elim conjE)
  from w have a: "\<forall>t. 3600 \<le> t \<longrightarrow>
              fst (PenaltyManager_get_rate_limit_multiplier ten ''client'' t) = 1"
    by (elim conjE)
  from d have d': "fst (PenaltyManager_get_rate_limit_multiplier ten ''client'' 3599) = 1/2"
    by simp
  from a have a': "fst (PenaltyManager_get_rate_limit_multiplier ten ''client'' 3600) = 1"
    by simp
  from s d' a' show ?thesis unfolding ten_def config_def by simp
qed

end
